theory Spec2Isabelle
  imports Complex_Main
begin

section \<open>Numbers and strings\<close>

text \<open>
  The scripts compute with JavaScript numbers, which are IEEE 754 binary64
  values. Amounts are modelled as reals, and the roundings that the properties
  below depend on are written out: the decimal rounding the scripts ask for
  (\<open>toFixed\<close>), and the binary rounding of the differences and sums over the
  totals and deltas of the delegation ledger (\<open>binary64\<close>). The other sums and
  products are exact in this model.

  \<open>quantum x\<close> is the spacing of the binary64 values at the magnitude of \<open>x\<close>:
  \<open>2^-1074\<close> below \<open>2^-1021\<close> (the subnormal values and the first binade), and
  twice as much from each power of two on, which is \<open>2^(e-52)\<close> for
  \<open>2^e \<le> |x| < 2^(e+1)\<close>, up to \<open>2^971\<close> in the last binade. It is found by
  going up through the binades (\<open>spacing\<close>). \<open>binary64 x\<close> is the multiple of
  it nearest to \<open>x\<close>, a tie going to the even multiple: the result of an
  arithmetic operation whose exact value is \<open>x\<close>, and the value of a decimal
  literal \<open>x\<close>. Overflow to \<open>Infinity\<close> (from \<open>2^1024\<close> on) is left out.
\<close>

fun spacing :: "nat \<Rightarrow> real \<Rightarrow> real \<Rightarrow> real" where
  "spacing 0 q x = q"
| "spacing (Suc n) q x = (if \<bar>x\<bar> < q * 2 ^ 53 then q else spacing n (2 * q) x)"

definition quantum :: "real \<Rightarrow> real" where
  "quantum x = spacing 2045 (1 / 2 ^ 1074) x"

definition roundHalfEven :: "real \<Rightarrow> int" where
  "roundHalfEven y =
     (let n = \<lfloor>y\<rfloor>; r = y - of_int n
      in if r < 1 / 2 then n
         else if 1 / 2 < r then n + 1
         else if even n then n else n + 1)"

definition binary64 :: "real \<Rightarrow> real" where
  "binary64 x = of_int (roundHalfEven (x / quantum x)) * quantum x"

text \<open>
  \<open>parseFloat(x.toFixed(digits))\<close>: the nearest multiple of \<open>10^-digits\<close>,
  a tie going away from zero.
\<close>

definition toFixed :: "nat \<Rightarrow> real \<Rightarrow> real" where
  "toFixed digits x =
     (if x < 0 then - (of_int \<lfloor>(- x) * 10 ^ digits + 1 / 2\<rfloor> / 10 ^ digits)
      else of_int \<lfloor>x * 10 ^ digits + 1 / 2\<rfloor> / 10 ^ digits)"

text \<open>utils.js, \<open>formatHIVE(amount, decimals = 3)\<close>.\<close>

definition formatHIVE :: "real \<Rightarrow> real" where
  "formatHIVE amount = toFixed 3 amount"

text \<open>
  utils.js, \<open>loadJSON(filename, fallback)\<close>: the file is given by what parsing it
  yields, \<open>None\<close> when it is missing or does not parse.
\<close>

definition loadJSON :: "'a option \<Rightarrow> 'a \<Rightarrow> 'a" where
  "loadJSON file fallback = (case file of None \<Rightarrow> fallback | Some v \<Rightarrow> v)"

text \<open>
  Strings are byte strings; \<open>toLowerCase\<close> and \<open>trim\<close> are modelled on ASCII
  (Hive account names are ASCII).
\<close>

definition toLowerCaseChar :: "char \<Rightarrow> char" where
  "toLowerCaseChar c =
     (case map_of (zip ''ABCDEFGHIJKLMNOPQRSTUVWXYZ'' ''abcdefghijklmnopqrstuvwxyz'') c of
        Some l \<Rightarrow> l
      | None \<Rightarrow> c)"

definition toLowerCase :: "string \<Rightarrow> string" where
  "toLowerCase s = map toLowerCaseChar s"

definition isWhiteSpace :: "char \<Rightarrow> bool" where
  "isWhiteSpace c = (c \<in> set [CHR '' '', CHR 0x09, CHR 0x0A, CHR 0x0B, CHR 0x0C, CHR 0x0D])"

definition trim :: "string \<Rightarrow> string" where
  "trim s = rev (dropWhile isWhiteSpace (rev (dropWhile isWhiteSpace s)))"

text \<open>\<open>s.split(',')\<close>: the empty string splits into one empty part.\<close>

fun splitComma :: "string \<Rightarrow> string list" where
  "splitComma [] = [[]]"
| "splitComma (c # cs) =
     (if c = CHR '','' then [] # splitComma cs
      else (case splitComma cs of
              [] \<Rightarrow> [[c]]
            | part # parts \<Rightarrow> (c # part) # parts))"

section \<open>Multiplier policy (utils.js)\<close>

text \<open>The earlier version of \<open>getMultiplier\<close> (utils.js lines 45-47): a hard step.\<close>

definition getMultiplierStep :: "real \<Rightarrow> real" where
  "getMultiplierStep totalDelegationHP = (if totalDelegationHP < 10000 then 3 else 1)"

text \<open>
  The later version (utils.js lines 120-142): piecewise linear, clamped below at
  0.5 and rounded to three decimals.
\<close>

definition getMultiplier :: "real \<Rightarrow> real" where
  "getMultiplier totalDelegationHP =
     (let totalHP = totalDelegationHP;
          m = (if totalHP < 10000 then 3
               else if totalHP < 20000 then 3 - ((totalHP - 10000) / 10000)
               else if totalHP < 30000 then 2 - ((totalHP - 20000) / 10000)
               else if totalHP < 40000 then 1 - ((totalHP - 30000) / 10000) * (1 / 2)
               else 1 / 2);
          m' = max (1 / 2) m
      in toFixed 3 m')"

section \<open>Chunked payout executor (send_sbi.js)\<close>

definition SBI_CHUNK :: real where
  "SBI_CHUNK = 1"

definition HIVE_NODES :: "string list" where
  "HIVE_NODES = [''https://api.hive.blog'', ''https://api.openhive.network'',
                 ''https://anyx.io'', ''https://rpc.ecency.com'']"

text \<open>
  \<open>getExcludedDelegators\<close>: \<open>excluded_from_sbi\<close> is the field of config.json
  (\<open>None\<close> when the file is missing or the field is not an array), \<open>SBI_EXCLUDE\<close>
  the environment variable (\<open>None\<close> when unset). Only the environment list is
  trimmed and filtered.
\<close>

definition getExcludedDelegators :: "string list option \<Rightarrow> string option \<Rightarrow> string set" where
  "getExcludedDelegators excluded_from_sbi SBI_EXCLUDE =
     (let fromFile = (case excluded_from_sbi of Some xs \<Rightarrow> xs | None \<Rightarrow> []);
          fromEnv = filter (\<lambda>s. s \<noteq> [])
                      (map trim (splitComma (case SBI_EXCLUDE of Some v \<Rightarrow> v | None \<Rightarrow> [])))
      in set (map toLowerCase (fromFile @ fromEnv)))"

text \<open>One entry of delegator_balances.json; \<open>total_sent\<close> may be absent.\<close>

record balance_entry =
  balance :: real
  total_sent :: "real option"
  last_updated :: string

text \<open>One entry of sbi_log.json: \<open>{date, delegator, sent}\<close>.\<close>

record log_entry =
  log_date :: string
  log_delegator :: string
  log_sent :: real

text \<open>
  delegator_balances.json: an object from account names to entries, held as its
  entries in the order \<open>Object.entries\<close> gives them (the insertion order, for
  keys that are account names).
\<close>

type_synonym balances = "(string \<times> balance_entry) list"

text \<open>
  What a run does to the outside, in program order: a call of
  \<open>hive.broadcast.transfer\<close> with its memo and whether it was confirmed, the
  return of \<open>sendSBI(delegator)\<close>, and the two \<open>saveJSON\<close> calls.
\<close>

datatype effect =
    Broadcast string bool
  | SendSBI string bool
  | SaveBalances balances
  | SaveLog "log_entry list"

text \<open>
  The process environment as send_sbi.js reads it: \<open>DRY_RUN === 'true'\<close>,
  \<open>HIVE_USER\<close> (or its default) and \<open>HIVE_KEY\<close> (or the empty string).
\<close>

record environment =
  IS_DRY_RUN :: bool
  HIVE_USER :: string
  ACTIVE_KEY :: string

text \<open>
  The variables of a run: \<open>broadcasts\<close> counts the transfer calls made so far
  (the network answers the n-th call with \<open>net n\<close>).
\<close>

record run_state =
  sbiLog :: "log_entry list"
  totalSent :: real
  broadcasts :: nat
  currentNodeIndex :: nat
  effects :: "effect list"

definition setNextNode :: "run_state \<Rightarrow> run_state" where
  "setNextNode s = s\<lparr>currentNodeIndex := (currentNodeIndex s + 1) mod length HIVE_NODES\<rparr>"

text \<open>
  The retry loop of \<open>sendSBI\<close>, \<open>for (attempt = 1; attempt <= retries; attempt++)\<close>,
  by the number of attempts that remain; \<open>attempt < retries\<close> is \<open>0 < remaining\<close>
  after the failed attempt.
\<close>

fun broadcastLoop :: "(nat \<Rightarrow> bool) \<Rightarrow> string \<Rightarrow> nat \<Rightarrow> run_state \<Rightarrow> bool \<times> run_state" where
  "broadcastLoop net memo 0 s = (False, s)"
| "broadcastLoop net memo (Suc remaining) s =
     (let ok = net (broadcasts s);
          s1 = s\<lparr>broadcasts := Suc (broadcasts s), effects := effects s @ [Broadcast memo ok]\<rparr>
      in if ok then (True, s1)
         else broadcastLoop net memo remaining (if 0 < remaining then setNextNode s1 else s1))"

definition sendSBI :: "environment \<Rightarrow> (nat \<Rightarrow> bool) \<Rightarrow> string \<Rightarrow> run_state \<Rightarrow> bool \<times> run_state" where
  "sendSBI env net delegator s =
     (let memo = ''@'' @ HIVE_USER env @ '':@'' @ delegator;
          retries = 3
      in if IS_DRY_RUN env then (True, s)
         else if ACTIVE_KEY env = [] then (False, s)
         else broadcastLoop net memo retries s)"

text \<open>\<open>while (data.balance >= SBI_CHUNK)\<close> of \<open>processSBIPayouts\<close>.\<close>

function payWhile ::
  "environment \<Rightarrow> (nat \<Rightarrow> bool) \<Rightarrow> string \<Rightarrow> string \<Rightarrow> balance_entry \<Rightarrow> run_state
     \<Rightarrow> balance_entry \<times> run_state" where
  "payWhile env net today delegator data s =
     (if balance data \<ge> SBI_CHUNK then
        (let r = sendSBI env net delegator s;
             success = fst r;
             s1 = (snd r)\<lparr>effects := effects (snd r) @ [SendSBI delegator success]\<rparr>
         in if success then
              payWhile env net today delegator
                (data\<lparr>balance := formatHIVE (balance data - SBI_CHUNK),
                      total_sent := Some (formatHIVE ((case total_sent data of None \<Rightarrow> 0 | Some t \<Rightarrow> t) + SBI_CHUNK)),
                      last_updated := today\<rparr>)
                (s1\<lparr>sbiLog := sbiLog s1 @ [\<lparr>log_date = today, log_delegator = delegator, log_sent = SBI_CHUNK\<rparr>],
                    totalSent := totalSent s1 + SBI_CHUNK\<rparr>)
            else (data, s1))
      else (data, s))"
  by pat_completeness auto
termination
proof (relation "measure (\<lambda>(env, net, today, delegator, data, s). nat \<lfloor>balance data * 1000\<rfloor>)")
  show "wf (measure (\<lambda>(env, net, today, delegator, data, s). nat \<lfloor>balance data * 1000\<rfloor>))"
    by simp
next
  fix env :: environment and net :: "nat \<Rightarrow> bool" and today delegator :: string
    and data :: balance_entry and s :: run_state and x xa xb
  assume b: "SBI_CHUNK \<le> balance data"
  let ?b = "balance data"
  have nonneg: "\<not> ?b - 1 < 0" using b by (simp add: SBI_CHUNK_def)
  have "\<lfloor>(?b - 1) * 1000 + 1 / 2\<rfloor> \<le> \<lfloor>?b * 1000\<rfloor> - 999"
  proof -
    have "(?b - 1) * 1000 + 1 / 2 \<le> ?b * 1000 - 999" by simp
    then have "\<lfloor>(?b - 1) * 1000 + 1 / 2\<rfloor> \<le> \<lfloor>?b * 1000 - 999\<rfloor>" by (rule floor_mono)
    also have "\<lfloor>?b * 1000 - 999\<rfloor> = \<lfloor>?b * 1000\<rfloor> - 999" by linarith
    finally show ?thesis .
  qed
  moreover have "1000 \<le> \<lfloor>?b * 1000\<rfloor>" using b by (simp add: SBI_CHUNK_def le_floor_iff)
  ultimately have "nat \<lfloor>(?b - 1) * 1000 + 1 / 2\<rfloor> < nat \<lfloor>?b * 1000\<rfloor>" by linarith
  then show "((env, net, today, delegator,
        data\<lparr>balance := formatHIVE (balance data - SBI_CHUNK),
             total_sent := Some (formatHIVE ((case total_sent data of None \<Rightarrow> 0 | Some t \<Rightarrow> t) + SBI_CHUNK)),
             last_updated := today\<rparr>,
        xb\<lparr>sbiLog := sbiLog xb @ [\<lparr>log_date = today, log_delegator = delegator, log_sent = SBI_CHUNK\<rparr>],
           totalSent := totalSent xb + SBI_CHUNK\<rparr>),
       env, net, today, delegator, data, s)
      \<in> measure (\<lambda>(env, net, today, delegator, data, s). nat \<lfloor>balance data * 1000\<rfloor>)"
    using nonneg by (simp add: formatHIVE_def toFixed_def SBI_CHUNK_def)
qed

declare payWhile.simps [simp del]

text \<open>The calls of \<open>sendSBI\<close> among the effects: delegator and result.\<close>

fun sendCalls :: "effect list \<Rightarrow> (string \<times> bool) list" where
  "sendCalls [] = []"
| "sendCalls (SendSBI delegator success # es) = (delegator, success) # sendCalls es"
| "sendCalls (e # es) = sendCalls es"

text \<open>The memos of the transfer calls among the effects.\<close>

fun broadcastMemos :: "effect list \<Rightarrow> string list" where
  "broadcastMemos [] = []"
| "broadcastMemos (Broadcast memo ok # es) = memo # broadcastMemos es"
| "broadcastMemos (e # es) = broadcastMemos es"

text \<open>
  \<open>for (const [delegator, data] of Object.entries(balances))\<close>: the key
  \<open>_meta\<close> and the excluded delegators are passed over.
\<close>

fun payEntries ::
  "environment \<Rightarrow> (nat \<Rightarrow> bool) \<Rightarrow> string set \<Rightarrow> string \<Rightarrow> balances \<Rightarrow> run_state
     \<Rightarrow> balances \<times> run_state" where
  "payEntries env net excluded today [] s = ([], s)"
| "payEntries env net excluded today ((delegator, data) # rest) s =
     (if delegator = ''_meta'' then
        (let r = payEntries env net excluded today rest s in ((delegator, data) # fst r, snd r))
      else if toLowerCase delegator \<in> excluded then
        (let r = payEntries env net excluded today rest s in ((delegator, data) # fst r, snd r))
      else
        (let p = payWhile env net today delegator data s;
             r = payEntries env net excluded today rest (snd p)
         in ((delegator, fst p) # fst r, snd r)))"

text \<open>
  \<open>processSBIPayouts\<close>: the two files are loaded with their fallbacks; the
  result is the balances and the variables at the end, the effects ending with the
  two saves.
\<close>

definition processSBIPayouts ::
  "environment \<Rightarrow> (nat \<Rightarrow> bool) \<Rightarrow> string list option \<Rightarrow> string option \<Rightarrow> string
     \<Rightarrow> balances option \<Rightarrow> log_entry list option \<Rightarrow> balances \<times> run_state" where
  "processSBIPayouts env net excluded_from_sbi SBI_EXCLUDE today balancesFile logFile =
     (let balances0 = loadJSON balancesFile [];
          sbiLog0 = loadJSON logFile [];
          excluded = getExcludedDelegators excluded_from_sbi SBI_EXCLUDE;
          r = payEntries env net excluded today balances0
                \<lparr>sbiLog = sbiLog0, totalSent = 0, broadcasts = 0, currentNodeIndex = 0, effects = []\<rparr>;
          s = snd r
      in (fst r, s\<lparr>effects := effects s @ [SaveBalances (fst r), SaveLog (sbiLog s)]\<rparr>))"

subsection \<open>The files and the chain across runs\<close>

text \<open>
  What outlives a process: the two files, and the transfers the chain has
  confirmed (their memos). A process that dies after \<open>n\<close> effects has done the
  first \<open>n\<close> effects of its run and no more.
\<close>

record world =
  balances_file :: "balances option"
  log_file :: "log_entry list option"
  chain :: "string list"

fun applyEffect :: "effect \<Rightarrow> world \<Rightarrow> world" where
  "applyEffect (Broadcast memo ok) w = (if ok then w\<lparr>chain := chain w @ [memo]\<rparr> else w)"
| "applyEffect (SendSBI delegator success) w = w"
| "applyEffect (SaveBalances b) w = w\<lparr>balances_file := Some b\<rparr>"
| "applyEffect (SaveLog l) w = w\<lparr>log_file := Some l\<rparr>"

definition payoutEffects ::
  "environment \<Rightarrow> (nat \<Rightarrow> bool) \<Rightarrow> string list option \<Rightarrow> string option \<Rightarrow> string \<Rightarrow> world \<Rightarrow> effect list" where
  "payoutEffects env net excluded_from_sbi SBI_EXCLUDE today w =
     effects (snd (processSBIPayouts env net excluded_from_sbi SBI_EXCLUDE today (balances_file w) (log_file w)))"

definition payoutRun ::
  "environment \<Rightarrow> (nat \<Rightarrow> bool) \<Rightarrow> string list option \<Rightarrow> string option \<Rightarrow> string \<Rightarrow> world \<Rightarrow> world" where
  "payoutRun env net excluded_from_sbi SBI_EXCLUDE today w =
     fold applyEffect (payoutEffects env net excluded_from_sbi SBI_EXCLUDE today w) w"

definition payoutRunCrashed ::
  "nat \<Rightarrow> environment \<Rightarrow> (nat \<Rightarrow> bool) \<Rightarrow> string list option \<Rightarrow> string option \<Rightarrow> string \<Rightarrow> world \<Rightarrow> world" where
  "payoutRunCrashed n env net excluded_from_sbi SBI_EXCLUDE today w =
     fold applyEffect (take n (payoutEffects env net excluded_from_sbi SBI_EXCLUDE today w)) w"

section \<open>Accumulation (fetch_rewards.js, accumulator.js)\<close>

text \<open>A parsed JSON document; \<open>JObj\<close> holds the members of an object by key.\<close>

datatype json =
    JNull
  | JBool bool
  | JNum real
  | JStr string
  | JArr "json list"
  | JObj "(string \<times> json) list"

text \<open>JavaScript truthiness of a parsed JSON value.\<close>

fun truthy :: "json \<Rightarrow> bool" where
  "truthy JNull = False"
| "truthy (JBool b) = b"
| "truthy (JNum x) = (x \<noteq> 0)"
| "truthy (JStr s) = (s \<noteq> [])"
| "truthy (JArr xs) = True"
| "truthy (JObj kvs) = True"

text \<open>
  \<open>x.key\<close> for the keys the scripts read (\<open>None\<close> is \<open>undefined\<close>); a read on
  \<open>null\<close> throws and is handled where it can happen.
\<close>

fun property :: "json \<Rightarrow> string \<Rightarrow> json option" where
  "property (JObj kvs) key = map_of kvs key"
| "property j key = None"

definition truthyProperty :: "json option \<Rightarrow> bool" where
  "truthyProperty v = (case v of None \<Rightarrow> False | Some j \<Rightarrow> truthy j)"

text \<open>\<open>typeof v === 'number'\<close>.\<close>

fun isNumber :: "json option \<Rightarrow> bool" where
  "isNumber (Some (JNum x)) = True"
| "isNumber v = False"

text \<open>
  How a script can end early: \<open>process.exit(code)\<close>, or a thrown TypeError
  (reading a property of \<open>null\<close>).
\<close>

datatype failure = ProcessExit nat | TypeError

text \<open>\<open>for (const d of payoutSummary.delegators)\<close> of \<open>fetchRewards\<close>.\<close>

fun validateDelegators :: "json list \<Rightarrow> failure option" where
  "validateDelegators [] = None"
| "validateDelegators (d # ds) =
     (if d = JNull then Some TypeError
      else if \<not> truthyProperty (property d ''name'') \<or> \<not> isNumber (property d ''base_reward'')
        then Some (ProcessExit 1)
      else validateDelegators ds)"

text \<open>
  \<open>fetchRewards\<close>: the argument is payout_summary.json, loaded with the
  fallback \<open>null\<close>.
\<close>

definition fetchRewards :: "json option \<Rightarrow> failure + json" where
  "fetchRewards file =
     (let payoutSummary = loadJSON file JNull
      in if \<not> truthy payoutSummary then Inl (ProcessExit 1)
         else if \<not> truthyProperty (property payoutSummary ''date'') then Inl (ProcessExit 1)
         else if \<not> isNumber (property payoutSummary ''total_delegation_hp'') then Inl (ProcessExit 1)
         else (case property payoutSummary ''delegators'' of
                 Some (JArr ds) \<Rightarrow>
                   (if length ds = 0 then Inl (ProcessExit 1)
                    else (case validateDelegators ds of
                            Some f \<Rightarrow> Inl f
                          | None \<Rightarrow> Inr payoutSummary))
               | _ \<Rightarrow> Inl (ProcessExit 1)))"

text \<open>
  The destructuring reads of \<open>accumulate\<close>: \<open>{name, base_reward}\<close> of a
  delegator and \<open>{total_delegation_hp, delegators}\<close> of the summary. The model
  follows the run for names that are strings (a name of another JSON type would be
  turned into a property key by the language); \<open>None\<close> otherwise.
\<close>

definition readDelegator :: "json \<Rightarrow> (string \<times> real) option" where
  "readDelegator d =
     (case (property d ''name'', property d ''base_reward'') of
        (Some (JStr n), Some (JNum r)) \<Rightarrow> Some (n, r)
      | _ \<Rightarrow> None)"

definition readSummary :: "json \<Rightarrow> (real \<times> (string \<times> real) list) option" where
  "readSummary payoutSummary =
     (case (property payoutSummary ''total_delegation_hp'', property payoutSummary ''delegators'') of
        (Some (JNum totalHP), Some (JArr ds)) \<Rightarrow>
          (case those (map readDelegator ds) of
             Some delegators \<Rightarrow> Some (totalHP, delegators)
           | None \<Rightarrow> None)
      | _ \<Rightarrow> None)"

text \<open>\<open>balances[name].field = ...\<close>: the entry under the key is changed in place.\<close>

fun updateEntry :: "string \<Rightarrow> (balance_entry \<Rightarrow> balance_entry) \<Rightarrow> balances \<Rightarrow> balances" where
  "updateEntry name f [] = []"
| "updateEntry name f ((k, e) # rest) =
     (if k = name then (k, f e) # rest else (k, e) # updateEntry name f rest)"

text \<open>The body of the loop over the delegators in \<open>accumulate\<close> (Step 4).\<close>

definition accrue :: "real \<Rightarrow> string \<Rightarrow> string \<times> real \<Rightarrow> balances \<Rightarrow> balances" where
  "accrue multiplier today delegator balances =
     (let name = fst delegator;
          base_reward = snd delegator;
          adjustedReward = formatHIVE (base_reward * multiplier);
          balances1 = (if map_of balances name = None
                       then balances @ [(name, \<lparr>balance = 0, total_sent = Some 0, last_updated = today\<rparr>)]
                       else balances)
      in updateEntry name
           (\<lambda>e. e\<lparr>balance := formatHIVE (balance e + adjustedReward), last_updated := today\<rparr>)
           balances1)"

datatype outcome = Exited nat | Completed world

text \<open>
  \<open>accumulate\<close>, run as the script: an exit of \<open>fetchRewards\<close> ends the process
  with its code, a thrown error reaches the handler that calls \<open>process.exit(1)\<close>,
  and a run that comes to its end leaves the files as saved and ends with code 0.
\<close>

definition accumulate ::
  "environment \<Rightarrow> (nat \<Rightarrow> bool) \<Rightarrow> string list option \<Rightarrow> string option \<Rightarrow> string
     \<Rightarrow> json option \<Rightarrow> world \<Rightarrow> outcome option" where
  "accumulate env net excluded_from_sbi SBI_EXCLUDE today summaryFile w =
     (case fetchRewards summaryFile of
        Inl (ProcessExit code) \<Rightarrow> Some (Exited code)
      | Inl TypeError \<Rightarrow> Some (Exited 1)
      | Inr payoutSummary \<Rightarrow>
          (case readSummary payoutSummary of
             None \<Rightarrow> None
           | Some (total_delegation_hp, delegators) \<Rightarrow>
               (let multiplier = getMultiplier total_delegation_hp;
                    balances0 = loadJSON (balances_file w) [];
                    balances1 = fold (accrue multiplier today) delegators balances0;
                    w1 = applyEffect (SaveBalances balances1) w
                in Some (Completed (payoutRun env net excluded_from_sbi SBI_EXCLUDE today w1)))))"

definition exitCode :: "outcome \<Rightarrow> nat" where
  "exitCode out = (case out of Exited code \<Rightarrow> code | Completed w \<Rightarrow> 0)"

section \<open>Delegation ledger (fetch_real_delegators.js)\<close>

text \<open>
  An item of the account history: the operation with its parsed fields
  (\<open>parseFloat(vesting_shares)\<close>, \<open>parseFloat(reward_vests)\<close>), and its timestamp in
  milliseconds.
\<close>

datatype operation =
    DelegateVestingShares string string real
  | ClaimRewardBalance real
  | OtherOperation string

record history_item =
  item_index :: int
  item_timestamp :: int
  item_operation :: operation

text \<open>One stored entry of delegation_history.json.\<close>

record delegation_entry =
  vests :: real
  totalVests :: real
  hp :: real
  timestamp :: int
  date :: string

type_synonym delegation_history = "(string \<times> delegation_entry list) list"

text \<open>An element of \<open>delegationEvents\<close> in \<open>buildDelegationHistory\<close>.\<close>

record delegation_event =
  ev_delegator :: string
  ev_totalVests :: real
  ev_hp :: real
  ev_timestamp :: int
  ev_date :: string

text \<open>The literal \<open>0.000001\<close> of the two loops.\<close>

definition epsilon :: real where
  "epsilon = binary64 (1 / 1000000)"

definition vestsToHP :: "real \<Rightarrow> real \<Rightarrow> real \<Rightarrow> real" where
  "vestsToHP v totalVestingFundHive totalVestingShares = (v * totalVestingFundHive) / totalVestingShares"

text \<open>\<open>if (!history[delegator]) history[delegator] = []\<close>.\<close>

fun ensureDelegator :: "string \<Rightarrow> delegation_history \<Rightarrow> delegation_history" where
  "ensureDelegator delegator [] = [(delegator, [])]"
| "ensureDelegator delegator ((k, es) # rest) =
     (if k = delegator then (k, es) # rest else (k, es) # ensureDelegator delegator rest)"

text \<open>\<open>history[delegator].push(entry)\<close>.\<close>

fun pushEntry :: "string \<Rightarrow> delegation_entry \<Rightarrow> delegation_history \<Rightarrow> delegation_history" where
  "pushEntry delegator entry [] = []"
| "pushEntry delegator entry ((k, es) # rest) =
     (if k = delegator then (k, es @ [entry]) # rest else (k, es) # pushEntry delegator entry rest)"

definition eventsOf :: "delegation_history \<Rightarrow> string \<Rightarrow> delegation_entry list" where
  "eventsOf history delegator = (case map_of history delegator of Some es \<Rightarrow> es | None \<Rightarrow> [])"

text \<open>
  \<open>previousEvents.length > 0 ? previousEvents[previousEvents.length - 1].totalVests : 0\<close>.
\<close>

definition previousTotal :: "delegation_entry list \<Rightarrow> real" where
  "previousTotal previousEvents =
     (if length previousEvents > 0 then totalVests (last previousEvents) else 0)"

text \<open>
  The steps that the loop of \<open>buildDelegationHistory\<close> and the loop of
  \<open>mergeNewDelegationEvents\<close> share: the delta against the last stored total
  (\<open>totalVests - previousTotal\<close>, a subtraction of doubles), and the push when it
  is more than epsilon in absolute value.
\<close>

definition recordTotal ::
  "delegation_history \<Rightarrow> string \<Rightarrow> real \<Rightarrow> real \<Rightarrow> int \<Rightarrow> string \<Rightarrow> delegation_history" where
  "recordTotal history delegator newTotal hpValue time day =
     (let history1 = ensureDelegator delegator history;
          previousEvents = eventsOf history1 delegator;
          deltaVests = binary64 (newTotal - previousTotal previousEvents)
      in if \<bar>deltaVests\<bar> > epsilon
         then pushEntry delegator
                \<lparr>vests = deltaVests, totalVests = newTotal, hp = hpValue, timestamp = time, date = day\<rparr>
                history1
         else history1)"

text \<open>
  The first loop of \<open>buildDelegationHistory\<close>. \<open>account\<close> is \<open>ACCOUNT\<close>, and
  \<open>isoDate\<close> the day of a timestamp (\<open>new Date(t).toISOString().split('T')[0]\<close>).
\<close>

definition delegationEvents ::
  "string \<Rightarrow> (int \<Rightarrow> string) \<Rightarrow> history_item list \<Rightarrow> real \<Rightarrow> real \<Rightarrow> delegation_event list" where
  "delegationEvents account isoDate rawHistory totalVestingFundHive totalVestingShares =
     concat (map (\<lambda>item.
       (case item_operation item of
          DelegateVestingShares delegator delegatee newTotal \<Rightarrow>
            (if delegatee = account
             then [\<lparr>ev_delegator = delegator, ev_totalVests = newTotal,
                    ev_hp = toFixed 3 (vestsToHP newTotal totalVestingFundHive totalVestingShares),
                    ev_timestamp = item_timestamp item,
                    ev_date = isoDate (item_timestamp item)\<rparr>]
             else [])
        | _ \<Rightarrow> [])) rawHistory)"

definition buildStep :: "delegation_history \<Rightarrow> delegation_event \<Rightarrow> delegation_history" where
  "buildStep history event =
     recordTotal history (ev_delegator event) (ev_totalVests event) (toFixed 3 (ev_hp event))
       (ev_timestamp event) (ev_date event)"

definition buildDelegationHistory ::
  "string \<Rightarrow> (int \<Rightarrow> string) \<Rightarrow> history_item list \<Rightarrow> real \<Rightarrow> real \<Rightarrow> delegation_history" where
  "buildDelegationHistory account isoDate rawHistory totalVestingFundHive totalVestingShares =
     foldl buildStep []
       (sort_key ev_timestamp
          (delegationEvents account isoDate rawHistory totalVestingFundHive totalVestingShares))"

definition mergeStep ::
  "string \<Rightarrow> (int \<Rightarrow> string) \<Rightarrow> real \<Rightarrow> real \<Rightarrow> delegation_history \<Rightarrow> history_item \<Rightarrow> delegation_history" where
  "mergeStep account isoDate totalVestingFundHive totalVestingShares existingHistory item =
     (case item_operation item of
        DelegateVestingShares delegator delegatee newTotal \<Rightarrow>
          (if delegatee = account
           then recordTotal existingHistory delegator newTotal
                  (toFixed 3 (vestsToHP newTotal totalVestingFundHive totalVestingShares))
                  (item_timestamp item) (isoDate (item_timestamp item))
           else existingHistory)
      | _ \<Rightarrow> existingHistory)"

definition mergeNewDelegationEvents ::
  "string \<Rightarrow> (int \<Rightarrow> string) \<Rightarrow> delegation_history \<Rightarrow> history_item list \<Rightarrow> real \<Rightarrow> real \<Rightarrow> delegation_history" where
  "mergeNewDelegationEvents account isoDate existingHistory newOperations totalVestingFundHive totalVestingShares =
     foldl (mergeStep account isoDate totalVestingFundHive totalVestingShares) existingHistory newOperations"

text \<open>
  The histories the script writes: built from an account history, or merged onto
  one written before.
\<close>

inductive producedHistory :: "string \<Rightarrow> (int \<Rightarrow> string) \<Rightarrow> delegation_history \<Rightarrow> bool"
  for account :: string and isoDate :: "int \<Rightarrow> string" where
  built: "producedHistory account isoDate (buildDelegationHistory account isoDate rawHistory fund shares)"
| merged: "producedHistory account isoDate h \<Longrightarrow>
     producedHistory account isoDate (mergeNewDelegationEvents account isoDate h newOperations fund shares)"

text \<open>
  Replaying the stored deltas of a contributor in order, from 0, as a script
  does it: each addition is an addition of doubles.
\<close>

definition replayDeltas :: "delegation_entry list \<Rightarrow> real" where
  "replayDeltas es = foldl (\<lambda>acc e. binary64 (acc + vests e)) 0 es"

section \<open>Eligibility and allocation (main of fetch_real_delegators.js)\<close>

text \<open>
  The walk over the sorted events of one delegator: the running balance and the
  eligible vests, as a pair.
\<close>

definition walkStep :: "int \<Rightarrow> real \<times> real \<Rightarrow> delegation_entry \<Rightarrow> real \<times> real" where
  "walkStep cutoff acc event =
     (let runningBalance = fst acc + vests event;
          isEventEligible = (timestamp event \<le> cutoff)
      in (runningBalance, if isEventEligible then max 0 runningBalance else snd acc))"

definition walk :: "int \<Rightarrow> delegation_entry list \<Rightarrow> real \<times> real" where
  "walk cutoff events = foldl (walkStep cutoff) (0, 0) (sort_key timestamp events)"

definition runningBalanceOf :: "int \<Rightarrow> delegation_entry list \<Rightarrow> real" where
  "runningBalanceOf cutoff events = fst (walk cutoff events)"

definition eligibleVestsOf :: "int \<Rightarrow> delegation_entry list \<Rightarrow> real" where
  "eligibleVestsOf cutoff events =
     (let w = walk cutoff events;
          currentDelegation = max 0 (fst w)
      in min (snd w) currentDelegation)"

text \<open>\<open>object[key] = v\<close> on an object held as its entries in insertion order.\<close>

fun assign :: "string \<Rightarrow> real \<Rightarrow> (string \<times> real) list \<Rightarrow> (string \<times> real) list" where
  "assign key v [] = [(key, v)]"
| "assign key v ((k, x) # rest) =
     (if k = key then (k, v) # rest else (k, x) # assign key v rest)"

definition eligibleStep ::
  "int \<Rightarrow> real \<Rightarrow> real \<Rightarrow> (string \<times> real) list \<times> real \<Rightarrow> string \<times> delegation_entry list
     \<Rightarrow> (string \<times> real) list \<times> real" where
  "eligibleStep cutoff totalVestingFundHive totalVestingShares acc entry =
     (let eligibleVests = eligibleVestsOf cutoff (snd entry)
      in if eligibleVests > 0
         then (let eligibleHP = vestsToHP eligibleVests totalVestingFundHive totalVestingShares
               in (assign (fst entry) eligibleHP (fst acc), snd acc + eligibleHP))
         else acc)"

definition eligibleDelegators ::
  "int \<Rightarrow> real \<Rightarrow> real \<Rightarrow> delegation_history \<Rightarrow> (string \<times> real) list \<times> real" where
  "eligibleDelegators cutoff totalVestingFundHive totalVestingShares delegationHistory =
     foldl (eligibleStep cutoff totalVestingFundHive totalVestingShares) ([], 0) delegationHistory"

text \<open>
  The reward loop of \<open>main\<close>: the delegators by HP descending, each with
  \<open>{name, hp, base_reward}\<close>.
\<close>

definition baseRewards :: "(string \<times> real) list \<Rightarrow> real \<Rightarrow> real \<Rightarrow> (string \<times> real \<times> real) list" where
  "baseRewards eligible eligibleTotalHP distributable =
     map (\<lambda>(delegator, stake).
            (let share = stake / eligibleTotalHP;
                 baseReward = toFixed 6 (distributable * share)
             in (delegator, toFixed 3 stake, baseReward)))
         (sort_key (\<lambda>(delegator, stake). - stake) eligible)"

text \<open>The \<open>base_reward\<close> of an element of the reward list.\<close>

definition rewardOf :: "string \<times> real \<times> real \<Rightarrow> real" where
  "rewardOf d = snd (snd d)"

text \<open>
  The summary \<open>main\<close> of fetch_real_delegators.js saves as payout_summary.json:
  \<open>{date, total_delegation_hp, total_curation_hive, distributable_hive, delegators}\<close>,
  each delegator \<open>{name, hp, base_reward}\<close> as the reward loop made it.
\<close>

definition delegatorJSON :: "string \<times> real \<times> real \<Rightarrow> json" where
  "delegatorJSON d =
     JObj [(''name'', JStr (fst d)), (''hp'', JNum (fst (snd d))),
           (''base_reward'', JNum (snd (snd d)))]"

definition summaryJSON :: "string \<Rightarrow> real \<Rightarrow> real \<Rightarrow> real \<Rightarrow> (string \<times> real \<times> real) list \<Rightarrow> json" where
  "summaryJSON day eligibleTotalHP totalCurationHive distributable delegatorData =
     JObj [(''date'', JStr day),
           (''total_delegation_hp'', JNum (toFixed 3 eligibleTotalHP)),
           (''total_curation_hive'', JNum (toFixed 6 totalCurationHive)),
           (''distributable_hive'', JNum (toFixed 6 distributable)),
           (''delegators'', JArr (map delegatorJSON delegatorData))]"

section \<open>Notions for stating the properties\<close>

subsection \<open>Of the ledger\<close>

text \<open>
  The deltas that a sequence of totals gives when each total is subtracted from
  the one before it (\<open>prev\<close> before the first): as doubles, which is what the
  code stores, and exactly.
\<close>

fun storedDeltas :: "real \<Rightarrow> real list \<Rightarrow> real list" where
  "storedDeltas prev [] = []"
| "storedDeltas prev (t # ts) = binary64 (t - prev) # storedDeltas t ts"

fun exactDeltas :: "real \<Rightarrow> real list \<Rightarrow> real list" where
  "exactDeltas prev [] = []"
| "exactDeltas prev (t # ts) = (t - prev) # exactDeltas t ts"

text \<open>
  Half the spacing of the doubles at each of those differences, summed over the
  totals; and half the spacing of the doubles at each partial sum of a replay
  from \<open>acc\<close>, summed over the deltas.
\<close>

fun subtractionError :: "real \<Rightarrow> real list \<Rightarrow> real" where
  "subtractionError prev [] = 0"
| "subtractionError prev (t # ts) = quantum (t - prev) / 2 + subtractionError t ts"

fun additionError :: "real \<Rightarrow> real list \<Rightarrow> real" where
  "additionError acc [] = 0"
| "additionError acc (v # vs) = quantum (acc + v) / 2 + additionError (binary64 (acc + v)) vs"

text \<open>
  The invariant of a whole history: of every contributor, each stored delta is
  the double computed from the entry's total and the total of the entry before
  it, and is more than epsilon in absolute value.
\<close>

definition ledgerInvariant :: "delegation_history \<Rightarrow> bool" where
  "ledgerInvariant h =
     (\<forall>(k, es) \<in> set h. map vests es = storedDeltas 0 (map totalVests es)
                          \<and> (\<forall>e \<in> set es. epsilon < \<bar>vests e\<bar>))"

text \<open>
  The delegator of an item that \<open>mergeNewDelegationEvents\<close> acts on (a
  delegation to the account), and what it means that a total is the one last
  recorded for a delegator, up to epsilon: the delta the code computes for it is
  at most epsilon in absolute value.
\<close>

definition delegatorOf :: "string \<Rightarrow> history_item \<Rightarrow> string option" where
  "delegatorOf account item =
     (case item_operation item of
        DelegateVestingShares delegator delegatee newTotal \<Rightarrow>
          (if delegatee = account then Some delegator else None)
      | _ \<Rightarrow> None)"

definition settled :: "delegation_history \<Rightarrow> string \<Rightarrow> real \<Rightarrow> bool" where
  "settled h d t =
     (map_of h d \<noteq> None \<and> \<bar>binary64 (t - previousTotal (eventsOf h d))\<bar> \<le> epsilon)"

subsection \<open>Of the executor\<close>

text \<open>The two \<open>saveJSON\<close> calls among the effects.\<close>

fun isSave :: "effect \<Rightarrow> bool" where
  "isSave (SaveBalances b) = True"
| "isSave (SaveLog l) = True"
| "isSave e = False"

text \<open>The memo of a transfer for a delegator, as \<open>sendSBI\<close> builds it.\<close>

definition memoOf :: "environment \<Rightarrow> string \<Rightarrow> string" where
  "memoOf env delegator = ''@'' @ HIVE_USER env @ '':@'' @ delegator"

text \<open>The three assignments to \<open>data\<close> after a confirmed send.\<close>

definition paidEntry :: "string \<Rightarrow> balance_entry \<Rightarrow> balance_entry" where
  "paidEntry today data =
     data\<lparr>balance := formatHIVE (balance data - SBI_CHUNK),
          total_sent := Some (formatHIVE ((case total_sent data of None \<Rightarrow> 0 | Some t \<Rightarrow> t) + SBI_CHUNK)),
          last_updated := today\<rparr>"

text \<open>
  The push onto \<open>sbiLog\<close> and the addition to \<open>totalSent\<close> after a confirmed
  send.
\<close>

definition loggedState :: "string \<Rightarrow> string \<Rightarrow> run_state \<Rightarrow> run_state" where
  "loggedState today delegator s =
     s\<lparr>sbiLog := sbiLog s @ [\<lparr>log_date = today, log_delegator = delegator, log_sent = SBI_CHUNK\<rparr>],
       totalSent := totalSent s + SBI_CHUNK\<rparr>"

text \<open>
  The variables after one call of \<open>sendSBI\<close>, the call noted among the
  effects.
\<close>

definition calledState :: "environment \<Rightarrow> (nat \<Rightarrow> bool) \<Rightarrow> string \<Rightarrow> run_state \<Rightarrow> run_state" where
  "calledState env net delegator s =
     (snd (sendSBI env net delegator s))
       \<lparr>effects := effects (snd (sendSBI env net delegator s)) @ [SendSBI delegator (fst (sendSBI env net delegator s))]\<rparr>"

text \<open>
  What the loop over the entries adds to the effects \<open>E\<close> and to the log
  \<open>new\<close>: calls and transfers only for delegators that are not passed over, no
  save, one log entry for each confirmed call in order, and a call for every
  delegator not passed over whose balance reaches a chunk.
\<close>

definition entryFrame ::
  "environment \<Rightarrow> string set \<Rightarrow> balances \<Rightarrow> effect list \<Rightarrow> log_entry list \<Rightarrow> bool" where
  "entryFrame env X bs E new =
     ((\<forall>d \<in> set (map fst (sendCalls E)). d \<noteq> ''_meta'' \<and> toLowerCase d \<notin> X)
      \<and> (\<forall>m \<in> set (broadcastMemos E). \<exists>d. m = memoOf env d \<and> d \<noteq> ''_meta'' \<and> toLowerCase d \<notin> X)
      \<and> filter isSave E = []
      \<and> map log_delegator new = map fst (filter snd (sendCalls E))
      \<and> (\<forall>(d, data) \<in> set bs. d \<noteq> ''_meta'' \<and> toLowerCase d \<notin> X \<and> SBI_CHUNK \<le> balance data
            \<longrightarrow> d \<in> set (map fst (sendCalls E))))"

text \<open>
  The memos of the confirmed transfers among the effects: what a run adds to the
  chain.
\<close>

fun confirmedMemos :: "effect list \<Rightarrow> string list" where
  "confirmedMemos [] = []"
| "confirmedMemos (Broadcast memo ok # es) = (if ok then memo # confirmedMemos es else confirmedMemos es)"
| "confirmedMemos (e # es) = confirmedMemos es"

text \<open>
  For the entries of the balances and a number of confirmed sends for each of
  them: what is recorded once for each send (\<open>f\<close> of the delegator, in the order
  of the entries), and the entries after the assignments of that many sends.
  \<open>sentSoFar\<close> is \<open>data.total_sent || 0\<close>.
\<close>

definition perSend :: "(string \<Rightarrow> 'a) \<Rightarrow> balances \<Rightarrow> nat list \<Rightarrow> 'a list" where
  "perSend f bs ks = concat (map2 (\<lambda>entry k. replicate k (f (fst entry))) bs ks)"

definition paidTimes :: "string \<Rightarrow> balances \<Rightarrow> nat list \<Rightarrow> balances" where
  "paidTimes today bs ks = map2 (\<lambda>entry k. (fst entry, (paidEntry today ^^ k) (snd entry))) bs ks"

definition sentSoFar :: "balance_entry \<Rightarrow> real" where
  "sentSoFar data = (case total_sent data of None \<Rightarrow> 0 | Some t \<Rightarrow> t)"


text \<open>The variables at the start of \<open>processSBIPayouts\<close>.\<close>

definition startState :: "log_entry list \<Rightarrow> run_state" where
  "startState l = \<lparr>sbiLog = l, totalSent = 0, broadcasts = 0, currentNodeIndex = 0, effects = []\<rparr>"

section \<open>Example inputs\<close>

text \<open>
  An account history out of order: a delegation of 100, a redelivery that differs
  by less than epsilon (by \<open>2^-21\<close>), and a rise to 250.
\<close>

definition exampleHistory :: "history_item list" where
  "exampleHistory =
     [\<lparr>item_index = 3, item_timestamp = 3000, item_operation = DelegateVestingShares ''alice'' ''bayanihive'' 250\<rparr>,
      \<lparr>item_index = 1, item_timestamp = 1000, item_operation = DelegateVestingShares ''alice'' ''bayanihive'' 100\<rparr>,
      \<lparr>item_index = 2, item_timestamp = 2000, item_operation = DelegateVestingShares ''alice'' ''bayanihive'' (100 + 1 / 2097152)\<rparr>]"

text \<open>
  A delegation of \<open>0.200000 VESTS\<close> raised to \<open>0.900000 VESTS\<close>, the totals as
  \<open>parseFloat\<close> gives them, and the entries stored for it.
\<close>

definition driftHistory :: "history_item list" where
  "driftHistory =
     [\<lparr>item_index = 1, item_timestamp = 1000,
       item_operation = DelegateVestingShares ''alice'' ''bayanihive'' (binary64 (2 / 10))\<rparr>,
      \<lparr>item_index = 2, item_timestamp = 2000,
       item_operation = DelegateVestingShares ''alice'' ''bayanihive'' (binary64 (9 / 10))\<rparr>]"

definition driftEntries :: "delegation_entry list" where
  "driftEntries =
     [\<lparr>vests = 3602879701896397 / 2 ^ 54, totalVests = 3602879701896397 / 2 ^ 54,
       hp = 1 / 10, timestamp = 1000, date = ''2024-05-01''\<rparr>,
      \<lparr>vests = 6305039478318694 / 2 ^ 53, totalVests = 8106479329266893 / 2 ^ 53,
       hp = 9 / 20, timestamp = 2000, date = ''2024-05-01''\<rparr>]"

text \<open>Two delegations of one delegator, 100 and then 250.\<close>

definition item1 :: history_item where
  "item1 = \<lparr>item_index = 1, item_timestamp = 1000, item_operation = DelegateVestingShares ''alice'' ''bayanihive'' 100\<rparr>"

definition item2 :: history_item where
  "item2 = \<lparr>item_index = 2, item_timestamp = 2000, item_operation = DelegateVestingShares ''alice'' ''bayanihive'' 250\<rparr>"

text \<open>
  A delegation of 1000 at time 0 and 500 more on day 16 (times in milliseconds;
  day 14 is 1209600000), and a history whose deltas sum to less than zero.
\<close>

definition scenarioEvents :: "delegation_entry list" where
  "scenarioEvents =
     [\<lparr>vests = 1000, totalVests = 1000, hp = 500, timestamp = 0, date = ''2024-05-01''\<rparr>,
      \<lparr>vests = 500, totalVests = 1500, hp = 750, timestamp = 1382400000, date = ''2024-05-17''\<rparr>]"

definition overdrawnEvents :: "delegation_entry list" where
  "overdrawnEvents =
     [\<lparr>vests = 100, totalVests = 100, hp = 50, timestamp = 0, date = ''2024-05-01''\<rparr>,
      \<lparr>vests = - 150, totalVests = - 50, hp = - 25, timestamp = 500, date = ''2024-05-01''\<rparr>]"

text \<open>
  A live environment (a key is set, no dry run), and the files of a contributor
  with a balance of two chunks.
\<close>

definition liveEnv :: environment where
  "liveEnv = \<lparr>IS_DRY_RUN = False, HIVE_USER = ''bayanihive'', ACTIVE_KEY = ''5Jkey''\<rparr>"

definition crashWorld :: world where
  "crashWorld =
     \<lparr>balances_file = Some [(''alice'', \<lparr>balance = 2, total_sent = Some 0, last_updated = ''2024-04-30''\<rparr>)],
      log_file = Some [],
      chain = []\<rparr>"

section \<open>Properties\<close>

text \<open>
  C5. The multiplier policy returns 3.0 for a total eligible stake of 8000
  (below the 10000 boundary), in both versions of the policy. For a total of
  25000 the piecewise-linear policy returns 1.5: the value of its own tier
  function \<open>2 - (25000 - 20000) / 10000\<close>, which is the linear interpolation
  between the bounds of the tier (2.0 at 20000, 1.0 at 30000) and lies between
  them. (The earlier step policy has one tier from 10000 on and returns its
  value 1 there.)
\<close>

theorem multiplier_scenarios:
  "getMultiplier 8000 = 3
   \<and> getMultiplierStep 8000 = 3
   \<and> getMultiplier 25000 = 3 / 2
   \<and> getMultiplier 25000 = 2 - (25000 - 20000) / 10000
   \<and> getMultiplier 25000 = 2 + (25000 - 20000) * (1 - 2) / (30000 - 20000)
   \<and> getMultiplier 20000 = 2 \<and> getMultiplier 30000 = 1
   \<and> getMultiplier 30000 < getMultiplier 25000
   \<and> getMultiplier 25000 < getMultiplier 20000
   \<and> getMultiplierStep 25000 = 1"
  by (simp add: getMultiplier_def getMultiplierStep_def toFixed_def)

subsection \<open>Rounding to doubles\<close>

lemma spacing_pos: "0 < q \<Longrightarrow> 0 < spacing n q x"
  by (induction n arbitrary: q) simp_all

lemma quantum_pos: "0 < quantum x"
  by (simp add: quantum_def spacing_pos)

lemma roundHalfEven_error: "\<bar>of_int (roundHalfEven y) - y\<bar> \<le> 1 / 2"
  unfolding roundHalfEven_def Let_def by (auto; linarith)

lemma binary64_error: "\<bar>binary64 x - x\<bar> \<le> quantum x / 2"
proof -
  let ?q = "quantum x"
  have q: "0 < ?q" by (rule quantum_pos)
  have "\<bar>of_int (roundHalfEven (x / ?q)) - x / ?q\<bar> \<le> 1 / 2" by (rule roundHalfEven_error)
  then have "\<bar>of_int (roundHalfEven (x / ?q)) - x / ?q\<bar> * ?q \<le> (1 / 2) * ?q"
    using q by (intro mult_right_mono) simp_all
  moreover have "\<bar>of_int (roundHalfEven (x / ?q)) - x / ?q\<bar> * ?q = \<bar>binary64 x - x\<bar>"
  proof -
    have "\<bar>of_int (roundHalfEven (x / ?q)) - x / ?q\<bar> * ?q
        = \<bar>(of_int (roundHalfEven (x / ?q)) - x / ?q) * ?q\<bar>"
      using q by (simp add: abs_mult)
    also have "(of_int (roundHalfEven (x / ?q)) - x / ?q) * ?q = binary64 x - x"
      using q by (simp add: binary64_def algebra_simps)
    finally show ?thesis .
  qed
  ultimately show ?thesis by simp
qed

lemma binary64_zero: "binary64 0 = 0"
  by (simp add: binary64_def roundHalfEven_def)

lemma spacing_found:
  assumes "0 < q" and "j \<le> n" and "j = 0 \<or> q * 2 ^ j * 2 ^ 52 \<le> \<bar>x\<bar>" and "\<bar>x\<bar> < q * 2 ^ j * 2 ^ 53"
  shows "spacing n q x = q * 2 ^ j"
  using assms
proof (induction j arbitrary: n q)
  case 0
  then show ?case by (cases n) simp_all
next
  case (Suc j)
  from Suc.prems(2) obtain m where n: "n = Suc m" and jm: "j \<le> m" by (cases n) simp_all
  from Suc.prems(3) have low: "q * 2 ^ Suc j * 2 ^ 52 \<le> \<bar>x\<bar>" by simp
  have "(1::real) \<le> 2 ^ j" by simp
  then have "q * 2 ^ 53 \<le> q * 2 ^ Suc j * 2 ^ 52"
    using Suc.prems(1) by simp
  with low have no: "\<not> \<bar>x\<bar> < q * 2 ^ 53" by linarith
  have "spacing m (2 * q) x = (2 * q) * 2 ^ j"
  proof (rule Suc.IH)
    show "0 < 2 * q" using Suc.prems(1) by simp
    show "j \<le> m" by (rule jm)
    show "j = 0 \<or> 2 * q * 2 ^ j * 2 ^ 52 \<le> \<bar>x\<bar>" using low by simp
    show "\<bar>x\<bar> < 2 * q * 2 ^ j * 2 ^ 53" using Suc.prems(4) by simp
  qed
  then show ?case using no by (simp add: n)
qed

lemma quantum_at_least_one:
  assumes "2 ^ n \<le> \<bar>x\<bar>" and "\<bar>x\<bar> < 2 ^ Suc n" and "n \<le> 1023"
  shows "quantum x = 2 ^ n / 2 ^ 52"
proof -
  have p: "(1 / 2 ^ 1074 :: real) * 2 ^ (n + 1022) = 2 ^ n / 2 ^ 52"
    by (simp add: power_add)
  have "spacing 2045 (1 / 2 ^ 1074) x = (1 / 2 ^ 1074) * 2 ^ (n + 1022)"
  proof (rule spacing_found)
    show "(0::real) < 1 / 2 ^ 1074" by simp
    show "n + 1022 \<le> 2045" using assms(3) by simp
    show "n + 1022 = 0 \<or> 1 / 2 ^ 1074 * 2 ^ (n + 1022) * 2 ^ 52 \<le> \<bar>x\<bar>"
      using assms(1) unfolding p by simp
    show "\<bar>x\<bar> < 1 / 2 ^ 1074 * 2 ^ (n + 1022) * 2 ^ 53"
      using assms(2) unfolding p by simp
  qed
  then show ?thesis by (simp only: quantum_def p)
qed

lemma quantum_below_one:
  assumes "1 / 2 ^ n \<le> \<bar>x\<bar>" and "\<bar>x\<bar> < 2 / 2 ^ n" and "n \<le> 1022"
  shows "quantum x = 1 / 2 ^ (n + 52)"
proof -
  have "(2::real) ^ (1022 - n) * 2 ^ n = 2 ^ 1022"
    using assms(3) by (simp add: power_add [symmetric])
  then have q: "(2::real) ^ (1022 - n) = 2 ^ 1022 / 2 ^ n"
    by (simp add: field_simps)
  have p: "(1 / 2 ^ 1074 :: real) * 2 ^ (1022 - n) = 1 / 2 ^ (n + 52)"
    unfolding q by (simp add: power_add)
  have "spacing 2045 (1 / 2 ^ 1074) x = (1 / 2 ^ 1074) * 2 ^ (1022 - n)"
  proof (rule spacing_found)
    show "(0::real) < 1 / 2 ^ 1074" by simp
    show "1022 - n \<le> 2045" by simp
    show "1022 - n = 0 \<or> 1 / 2 ^ 1074 * 2 ^ (1022 - n) * 2 ^ 52 \<le> \<bar>x\<bar>"
      using assms(1) unfolding p by (simp add: power_add)
    show "\<bar>x\<bar> < 1 / 2 ^ 1074 * 2 ^ (1022 - n) * 2 ^ 53"
      using assms(2) unfolding p by (simp add: power_add)
  qed
  then show ?thesis by (simp only: quantum_def p)
qed

lemma binary64_at_least_one:
  assumes "2 ^ n \<le> \<bar>x\<bar>" and "\<bar>x\<bar> < 2 ^ Suc n" and "n \<le> 1023"
  shows "binary64 x = of_int (roundHalfEven (x * 2 ^ 52 / 2 ^ n)) * 2 ^ n / 2 ^ 52"
  by (simp add: binary64_def quantum_at_least_one [OF assms])

lemma binary64_below_one:
  assumes "1 / 2 ^ n \<le> \<bar>x\<bar>" and "\<bar>x\<bar> < 2 / 2 ^ n" and "n \<le> 1022"
  shows "binary64 x = of_int (roundHalfEven (x * 2 ^ (n + 52))) / 2 ^ (n + 52)"
  by (simp add: binary64_def quantum_below_one [OF assms])

text \<open>
  The doubles of the examples: 100, 150, -150 and \<open>2^-21\<close> are doubles;
  \<open>0.000001\<close>, \<open>0.2\<close> and \<open>0.9\<close> are not, and neither is the difference nor the
  sum of the doubles nearest to them.
\<close>

lemma binary64_100: "binary64 100 = 100"
  by (subst binary64_at_least_one [where n = 6]) (simp_all add: roundHalfEven_def Let_def)

lemma binary64_150: "binary64 150 = 150"
  by (subst binary64_at_least_one [where n = 7]) (simp_all add: roundHalfEven_def Let_def)

lemma binary64_minus_150: "binary64 (- 150) = - 150"
  by (subst binary64_at_least_one [where n = 7]) (simp_all add: roundHalfEven_def Let_def)

lemma binary64_2_pow_minus_21: "binary64 (1 / 2097152) = 1 / 2097152"
  by (subst binary64_below_one [where n = 21]) (simp_all add: roundHalfEven_def Let_def)

lemma epsilon_value: "epsilon = 4722366482869645 / 2 ^ 72"
  unfolding epsilon_def
  by (subst binary64_below_one [where n = 20]) (simp_all add: roundHalfEven_def Let_def)

lemma epsilon_nonneg: "0 \<le> epsilon"
  by (simp add: epsilon_value)

lemma binary64_fifth: "binary64 (2 / 10) = 3602879701896397 / 2 ^ 54"
  by (subst binary64_below_one [where n = 3]) (simp_all add: roundHalfEven_def Let_def)

lemma binary64_nine_tenths: "binary64 (9 / 10) = 8106479329266893 / 2 ^ 53"
  by (subst binary64_below_one [where n = 1]) (simp_all add: roundHalfEven_def Let_def)

lemma binary64_difference:
  "binary64 (8106479329266893 / 2 ^ 53 - 3602879701896397 / 2 ^ 54) = 6305039478318694 / 2 ^ 53"
  by (subst binary64_below_one [where n = 1]) (simp_all add: roundHalfEven_def Let_def)

lemma binary64_sum:
  "binary64 (3602879701896397 / 2 ^ 54 + 6305039478318694 / 2 ^ 53) = 8106479329266892 / 2 ^ 53"
  by (subst binary64_below_one [where n = 1]) (simp_all add: roundHalfEven_def Let_def)

lemma binary64_two_and_a_millionth: "binary64 (2000001 / 1000000) = 4503601879170310 / 2 ^ 51"
  by (subst binary64_at_least_one [where n = 1]) (simp_all add: roundHalfEven_def Let_def)

lemma binary64_millionth_rise: "binary64 (4503601879170310 / 2 ^ 51 - 2) = 2251799814 / 2 ^ 51"
  by (subst binary64_below_one [where n = 20]) (simp_all add: roundHalfEven_def Let_def)

lemma quantum_fifth: "quantum (3602879701896397 / 2 ^ 54) = 1 / 2 ^ 55"
  by (subst quantum_below_one [where n = 3]) simp_all

lemma quantum_difference:
  "quantum (8106479329266893 / 2 ^ 53 - 3602879701896397 / 2 ^ 54) = 1 / 2 ^ 53"
  by (subst quantum_below_one [where n = 1]) simp_all

subsection \<open>The delegation ledger\<close>

lemma previousTotal_last: "previousTotal es = last (0 # map totalVests es)"
  by (cases es rule: rev_cases) (simp_all add: previousTotal_def)

lemma storedDeltas_snoc:
  "storedDeltas p (ts @ [t]) = storedDeltas p ts @ [binary64 (t - last (p # ts))]"
  by (induction ts arbitrary: p) simp_all

lemma stored_after_push:
  assumes "map vests es = storedDeltas 0 (map totalVests es)"
  shows "map vests (es @ [\<lparr>vests = binary64 (t - previousTotal es), totalVests = t, hp = h, timestamp = ts, date = d\<rparr>])
         = storedDeltas 0 (map totalVests
             (es @ [\<lparr>vests = binary64 (t - previousTotal es), totalVests = t, hp = h, timestamp = ts, date = d\<rparr>]))"
  using assms by (simp add: storedDeltas_snoc previousTotal_last)

lemma ensureDelegator_set: "set (ensureDelegator d h) \<subseteq> insert (d, []) (set h)"
  by (induction h) (auto split: if_splits)

lemma ensureDelegator_invariant:
  assumes "ledgerInvariant h"
  shows "ledgerInvariant (ensureDelegator d h)"
  using assms ensureDelegator_set [of d h] unfolding ledgerInvariant_def by fastforce

lemma pushEntry_set:
  "set (pushEntry d e h) \<subseteq> insert (d, eventsOf h d @ [e]) (set h)"
  by (induction h) (auto simp: eventsOf_def split: if_splits)

lemma recordTotal_invariant:
  assumes "ledgerInvariant h"
  shows "ledgerInvariant (recordTotal h d t hpv ts day)"
proof -
  let ?h1 = "ensureDelegator d h"
  let ?es = "eventsOf ?h1 d"
  let ?e = "\<lparr>vests = binary64 (t - previousTotal ?es), totalVests = t, hp = hpv, timestamp = ts, date = day\<rparr>"
  have inv1: "ledgerInvariant ?h1" using assms by (rule ensureDelegator_invariant)
  have key: "(d, ?es) \<in> set ?h1"
    by (induction h) (auto simp: eventsOf_def split: if_splits)
  then have es: "map vests ?es = storedDeltas 0 (map totalVests ?es)" and above: "\<forall>e \<in> set ?es. epsilon < \<bar>vests e\<bar>"
    using inv1 by (auto simp: ledgerInvariant_def)
  have pushed: "ledgerInvariant (pushEntry d ?e ?h1)" if big: "epsilon < \<bar>binary64 (t - previousTotal ?es)\<bar>"
  proof -
    have "map vests (?es @ [?e]) = storedDeltas 0 (map totalVests (?es @ [?e]))"
      using es by (rule stored_after_push)
    moreover have "\<forall>e \<in> set (?es @ [?e]). epsilon < \<bar>vests e\<bar>"
      using above big by simp
    ultimately show ?thesis
      using inv1 pushEntry_set [of d ?e ?h1] unfolding ledgerInvariant_def by fastforce
  qed
  show ?thesis
  proof (cases "epsilon < \<bar>binary64 (t - previousTotal ?es)\<bar>")
    case True
    then show ?thesis using pushed by (simp add: recordTotal_def Let_def)
  next
    case False
    then show ?thesis using inv1 by (simp add: recordTotal_def Let_def)
  qed
qed

lemma foldl_buildStep_invariant:
  "ledgerInvariant h \<Longrightarrow> ledgerInvariant (foldl buildStep h evs)"
  by (induction evs arbitrary: h) (simp_all add: buildStep_def recordTotal_invariant)

lemma mergeStep_invariant:
  "ledgerInvariant h \<Longrightarrow> ledgerInvariant (mergeStep account isoDate fund shares h item)"
  by (simp add: mergeStep_def recordTotal_invariant split: operation.splits)

lemma foldl_mergeStep_invariant:
  "ledgerInvariant h \<Longrightarrow> ledgerInvariant (foldl (mergeStep account isoDate fund shares) h items)"
  by (induction items arbitrary: h) (simp_all add: mergeStep_invariant)

lemma producedHistory_invariant:
  "producedHistory account isoDate h \<Longrightarrow> ledgerInvariant h"
proof (induction rule: producedHistory.induct)
  case (built rawHistory fund shares)
  have "ledgerInvariant []" by (simp add: ledgerInvariant_def)
  then show ?case unfolding buildDelegationHistory_def by (rule foldl_buildStep_invariant)
next
  case (merged h newOperations fund shares)
  from merged.IH show ?case unfolding mergeNewDelegationEvents_def by (rule foldl_mergeStep_invariant)
qed

text \<open>
  A total of \<open>2.000001 VESTS\<close> after a total of 2: the delta that the code
  computes is more than the double \<open>0.000001\<close>, and the entry is stored.
\<close>

lemma millionth_rise_stored:
  "recordTotal
     [(''alice'', [\<lparr>vests = 2, totalVests = 2, hp = 1, timestamp = 1000, date = ''2024-05-01''\<rparr>])]
     ''alice'' (binary64 (2000001 / 1000000)) 1 2000 ''2024-05-01''
   = [(''alice'', [\<lparr>vests = 2, totalVests = 2, hp = 1, timestamp = 1000, date = ''2024-05-01''\<rparr>,
                   \<lparr>vests = 2251799814 / 2 ^ 51, totalVests = 4503601879170310 / 2 ^ 51, hp = 1,
                    timestamp = 2000, date = ''2024-05-01''\<rparr>])]"
  unfolding binary64_two_and_a_millionth
  by (simp add: recordTotal_def eventsOf_def previousTotal_def epsilon_value Let_def
      binary64_below_one [where n = 20] roundHalfEven_def)

lemma sum_storedDeltas_error:
  "\<bar>sum_list (storedDeltas p ts) - (last (p # ts) - p)\<bar> \<le> subtractionError p ts"
proof (induction ts arbitrary: p)
  case Nil
  then show ?case by simp
next
  case (Cons t ts)
  have a: "\<bar>binary64 (t - p) - (t - p)\<bar> \<le> quantum (t - p) / 2" by (rule binary64_error)
  have b: "\<bar>sum_list (storedDeltas t ts) - (last (t # ts) - t)\<bar> \<le> subtractionError t ts"
    by (rule Cons.IH)
  have "sum_list (storedDeltas p (t # ts)) - (last (p # t # ts) - p)
      = (binary64 (t - p) - (t - p)) + (sum_list (storedDeltas t ts) - (last (t # ts) - t))"
    by simp
  then have "\<bar>sum_list (storedDeltas p (t # ts)) - (last (p # t # ts) - p)\<bar>
      \<le> \<bar>binary64 (t - p) - (t - p)\<bar> + \<bar>sum_list (storedDeltas t ts) - (last (t # ts) - t)\<bar>"
    by (simp only: abs_triangle_ineq)
  with a b show ?case by simp
qed

lemma sum_exactDeltas: "sum_list (exactDeltas p ts) = last (p # ts) - p"
  by (induction ts arbitrary: p) simp_all

lemma replay_error:
  "\<bar>foldl (\<lambda>a v. binary64 (a + v)) acc vs - (acc + sum_list vs)\<bar> \<le> additionError acc vs"
proof (induction vs arbitrary: acc)
  case Nil
  then show ?case by simp
next
  case (Cons v vs)
  let ?f = "\<lambda>a v. binary64 (a + v)"
  have a: "\<bar>binary64 (acc + v) - (acc + v)\<bar> \<le> quantum (acc + v) / 2" by (rule binary64_error)
  have b: "\<bar>foldl ?f (binary64 (acc + v)) vs - (binary64 (acc + v) + sum_list vs)\<bar>
      \<le> additionError (binary64 (acc + v)) vs"
    by (rule Cons.IH)
  have "foldl ?f acc (v # vs) - (acc + sum_list (v # vs))
      = (foldl ?f (binary64 (acc + v)) vs - (binary64 (acc + v) + sum_list vs))
        + (binary64 (acc + v) - (acc + v))"
    by simp
  then have "\<bar>foldl ?f acc (v # vs) - (acc + sum_list (v # vs))\<bar>
      \<le> \<bar>foldl ?f (binary64 (acc + v)) vs - (binary64 (acc + v) + sum_list vs)\<bar>
        + \<bar>binary64 (acc + v) - (acc + v)\<bar>"
    by (simp only: abs_triangle_ineq)
  with a b show ?case by simp
qed

lemma replayDeltas_map: "replayDeltas es = foldl (\<lambda>a v. binary64 (a + v)) 0 (map vests es)"
  by (simp add: replayDeltas_def foldl_map)

text \<open>
  C2 as stated fails, since the stored delta is the double nearest to the
  difference of the totals: for the totals 0.2 and then 0.9 the deltas stored
  are the doubles 0.2 and 0.7 (0.9 - 0.2 lies halfway between two doubles), and
  they sum to less than the double 0.9 that is the latest total, added as doubles
  (0.8999999999999999) and added exactly.
\<close>

theorem ledger_replay_drifts:
  "buildDelegationHistory ''bayanihive'' (\<lambda>t. ''2024-05-01'') driftHistory 1 2 = [(''alice'', driftEntries)]
   \<and> producedHistory ''bayanihive'' (\<lambda>t. ''2024-05-01'') [(''alice'', driftEntries)]
   \<and> totalVests (last driftEntries) = 8106479329266893 / 2 ^ 53
   \<and> replayDeltas driftEntries = 8106479329266892 / 2 ^ 53
   \<and> sum_list (map vests driftEntries) = 16212958658533785 / 2 ^ 54
   \<and> replayDeltas driftEntries \<noteq> totalVests (last driftEntries)
   \<and> sum_list (map vests driftEntries) \<noteq> totalVests (last driftEntries)"
proof -
  have b: "buildDelegationHistory ''bayanihive'' (\<lambda>t. ''2024-05-01'') driftHistory 1 2 = [(''alice'', driftEntries)]"
    unfolding driftHistory_def binary64_fifth binary64_nine_tenths
    by (simp add: buildDelegationHistory_def delegationEvents_def buildStep_def recordTotal_def
        eventsOf_def previousTotal_def epsilon_value vestsToHP_def toFixed_def Let_def driftEntries_def
        binary64_below_one [where n = 3] binary64_below_one [where n = 1] roundHalfEven_def)
  have "producedHistory ''bayanihive'' (\<lambda>t. ''2024-05-01'')
          (buildDelegationHistory ''bayanihive'' (\<lambda>t. ''2024-05-01'') driftHistory 1 2)"
    by (rule producedHistory.built)
  then have p: "producedHistory ''bayanihive'' (\<lambda>t. ''2024-05-01'') [(''alice'', driftEntries)]"
    by (simp only: b)
  have r: "replayDeltas driftEntries = 8106479329266892 / 2 ^ 53"
    by (simp add: replayDeltas_def driftEntries_def
        binary64_below_one [where n = 3] binary64_below_one [where n = 1] roundHalfEven_def Let_def)
  have l: "totalVests (last driftEntries) = 8106479329266893 / 2 ^ 53"
    and s: "sum_list (map vests driftEntries) = 16212958658533785 / 2 ^ 54"
    by (simp_all add: driftEntries_def)
  have n1: "replayDeltas driftEntries \<noteq> totalVests (last driftEntries)"
    unfolding r l by simp
  have n2: "sum_list (map vests driftEntries) \<noteq> totalVests (last driftEntries)"
    unfolding s l by simp
  from b p l r s n1 n2 show ?thesis by (intro conjI)
qed

text \<open>
  C2 (as amended). For every contributor of a delegation history produced by
  build or merge, each stored delta (\<open>vests\<close>) is the double computed from the
  entry's total (\<open>totalVests\<close>) and the total of the entry before it (0 before
  the first), and it is more than epsilon in absolute value. So the sum of the
  stored deltas gives the latest recorded total (\<open>totalVests\<close> of the last
  entry; 0, the total the code takes for a contributor with no stored entry) up
  to the rounding of those subtractions, half the spacing of the doubles at each
  difference; replayed with additions of doubles, up to the rounding of the
  additions as well; and the sum is the latest total itself when every
  difference of consecutive totals is a double.
\<close>

theorem ledger_replay_within_rounding:
  assumes "producedHistory account isoDate h" and "(delegator, es) \<in> set h"
  shows "map vests es = storedDeltas 0 (map totalVests es)
         \<and> (\<forall>e \<in> set es. epsilon < \<bar>vests e\<bar>)
         \<and> \<bar>sum_list (map vests es) - (if es = [] then 0 else totalVests (last es))\<bar>
             \<le> subtractionError 0 (map totalVests es)
         \<and> \<bar>replayDeltas es - (if es = [] then 0 else totalVests (last es))\<bar>
             \<le> subtractionError 0 (map totalVests es) + additionError 0 (map vests es)
         \<and> (storedDeltas 0 (map totalVests es) = exactDeltas 0 (map totalVests es)
              \<longrightarrow> sum_list (map vests es) = (if es = [] then 0 else totalVests (last es)))"
proof -
  let ?latest = "if es = [] then 0 else totalVests (last es)"
  from assms(1) have "ledgerInvariant h" by (rule producedHistory_invariant)
  with assms(2) have stored: "map vests es = storedDeltas 0 (map totalVests es)"
    and above: "\<forall>e \<in> set es. epsilon < \<bar>vests e\<bar>"
    unfolding ledgerInvariant_def by blast+
  have latest: "last (0 # map totalVests es) - 0 = ?latest"
    by (simp add: last_map)
  have "\<bar>sum_list (storedDeltas 0 (map totalVests es)) - (last (0 # map totalVests es) - 0)\<bar>
      \<le> subtractionError 0 (map totalVests es)"
    by (rule sum_storedDeltas_error)
  then have c3: "\<bar>sum_list (map vests es) - ?latest\<bar> \<le> subtractionError 0 (map totalVests es)"
    by (simp only: stored latest)
  have "\<bar>foldl (\<lambda>a v. binary64 (a + v)) 0 (map vests es) - (0 + sum_list (map vests es))\<bar>
      \<le> additionError 0 (map vests es)"
    by (rule replay_error)
  then have add: "\<bar>replayDeltas es - sum_list (map vests es)\<bar> \<le> additionError 0 (map vests es)"
    by (simp add: replayDeltas_map)
  have "\<bar>replayDeltas es - ?latest\<bar>
      \<le> \<bar>replayDeltas es - sum_list (map vests es)\<bar> + \<bar>sum_list (map vests es) - ?latest\<bar>"
    by simp
  with add c3 have c4: "\<bar>replayDeltas es - ?latest\<bar>
      \<le> subtractionError 0 (map totalVests es) + additionError 0 (map vests es)"
    by linarith
  have c5: "storedDeltas 0 (map totalVests es) = exactDeltas 0 (map totalVests es)
              \<longrightarrow> sum_list (map vests es) = ?latest"
  proof
    assume "storedDeltas 0 (map totalVests es) = exactDeltas 0 (map totalVests es)"
    with stored have "sum_list (map vests es) = sum_list (exactDeltas 0 (map totalVests es))"
      by simp
    also have "\<dots> = last (0 # map totalVests es) - 0" by (rule sum_exactDeltas)
    finally show "sum_list (map vests es) = ?latest" by (simp only: latest)
  qed
  from stored above c3 c4 c5 show ?thesis by (intro conjI)
qed

lemma exampleHistory_built:
  "buildDelegationHistory ''bayanihive'' (\<lambda>t. ''2024-05-01'') exampleHistory 1 2 =
     [(''alice'',
       [\<lparr>vests = 100, totalVests = 100, hp = 50, timestamp = 1000, date = ''2024-05-01''\<rparr>,
        \<lparr>vests = 150, totalVests = 250, hp = 125, timestamp = 3000, date = ''2024-05-01''\<rparr>])]"
  by (simp add: buildDelegationHistory_def delegationEvents_def exampleHistory_def buildStep_def
      recordTotal_def eventsOf_def previousTotal_def epsilon_value vestsToHP_def toFixed_def Let_def
      binary64_100 binary64_150 binary64_2_pow_minus_21)

theorem ledger_replay_within_rounding_witness:
  "(''alice'',
     [\<lparr>vests = 100, totalVests = 100, hp = 50, timestamp = 1000, date = ''2024-05-01''\<rparr>,
      \<lparr>vests = 150, totalVests = 250, hp = 125, timestamp = 3000, date = ''2024-05-01''\<rparr>])
     \<in> set (buildDelegationHistory ''bayanihive'' (\<lambda>t. ''2024-05-01'') exampleHistory 1 2)
   \<and> sum_list (map vests
      [\<lparr>vests = 100, totalVests = 100, hp = 50, timestamp = 1000, date = ''2024-05-01''\<rparr>,
       \<lparr>vests = 150, totalVests = 250, hp = 125, timestamp = 3000, date = ''2024-05-01''\<rparr>]) = 250
   \<and> (''alice'', driftEntries)
     \<in> set (buildDelegationHistory ''bayanihive'' (\<lambda>t. ''2024-05-01'') driftHistory 1 2)
   \<and> map vests driftEntries = [binary64 (3602879701896397 / 2 ^ 54 - 0),
                               binary64 (8106479329266893 / 2 ^ 53 - 3602879701896397 / 2 ^ 54)]
   \<and> \<bar>sum_list (map vests driftEntries) - 8106479329266893 / 2 ^ 53\<bar> \<le> 1 / 2 ^ 56 + 1 / 2 ^ 54"
proof -
  let ?es = "[\<lparr>vests = 100, totalVests = 100, hp = 50, timestamp = 1000, date = ''2024-05-01''\<rparr>,
              \<lparr>vests = 150, totalVests = 250, hp = 125, timestamp = 3000, date = ''2024-05-01''\<rparr>]"
  have m1: "(''alice'', ?es) \<in> set (buildDelegationHistory ''bayanihive'' (\<lambda>t. ''2024-05-01'') exampleHistory 1 2)"
    by (simp add: exampleHistory_built)
  have e1: "storedDeltas 0 (map totalVests ?es) = exactDeltas 0 (map totalVests ?es)"
    by (simp add: binary64_100 binary64_150)
  have built2: "buildDelegationHistory ''bayanihive'' (\<lambda>t. ''2024-05-01'') driftHistory 1 2 = [(''alice'', driftEntries)]"
    unfolding driftHistory_def binary64_fifth binary64_nine_tenths
    by (simp add: buildDelegationHistory_def delegationEvents_def buildStep_def recordTotal_def
        eventsOf_def previousTotal_def epsilon_value vestsToHP_def toFixed_def Let_def driftEntries_def
        binary64_below_one [where n = 3] binary64_below_one [where n = 1] roundHalfEven_def)
  then have m2: "(''alice'', driftEntries)
      \<in> set (buildDelegationHistory ''bayanihive'' (\<lambda>t. ''2024-05-01'') driftHistory 1 2)"
    by simp
  have q: "subtractionError 0 (map totalVests driftEntries) = 1 / 2 ^ 56 + 1 / 2 ^ 54"
    unfolding driftEntries_def
    by (simp only: list.map delegation_entry.simps subtractionError.simps diff_zero
        quantum_fifth quantum_difference) simp
  have t: "map totalVests driftEntries = [3602879701896397 / 2 ^ 54, 8106479329266893 / 2 ^ 53]"
    and nonempty: "driftEntries \<noteq> []"
    and l: "totalVests (last driftEntries) = 8106479329266893 / 2 ^ 53"
    by (simp_all add: driftEntries_def)
  note a = ledger_replay_within_rounding [OF producedHistory.built m1]
  note b = ledger_replay_within_rounding [OF producedHistory.built m2]
  from a e1 have s1: "sum_list (map vests ?es) = 250" by simp
  from b have s2: "map vests driftEntries = storedDeltas 0 (map totalVests driftEntries)" by blast
  from b have s3: "\<bar>sum_list (map vests driftEntries) - (if driftEntries = [] then 0 else totalVests (last driftEntries))\<bar>
      \<le> subtractionError 0 (map totalVests driftEntries)"
    by blast
  have c4: "map vests driftEntries = [binary64 (3602879701896397 / 2 ^ 54 - 0),
                               binary64 (8106479329266893 / 2 ^ 53 - 3602879701896397 / 2 ^ 54)]"
    unfolding s2 t by (simp only: storedDeltas.simps)
  have c5: "\<bar>sum_list (map vests driftEntries) - 8106479329266893 / 2 ^ 53\<bar> \<le> 1 / 2 ^ 56 + 1 / 2 ^ 54"
    using s3 unfolding q by (simp only: nonempty l if_False)
  from m1 s1 m2 c4 c5 show ?thesis by (intro conjI)
qed

lemma ensureDelegator_present: "map_of h d \<noteq> None \<Longrightarrow> ensureDelegator d h = h"
  by (induction h) auto

lemma map_of_ensureDelegator_same: "map_of (ensureDelegator d h) d \<noteq> None"
  by (induction h) auto

lemma map_of_ensureDelegator_other: "d \<noteq> d' \<Longrightarrow> map_of (ensureDelegator d' h) d = map_of h d"
  by (induction h) auto

lemma map_of_pushEntry_other: "d \<noteq> d' \<Longrightarrow> map_of (pushEntry d' e h) d = map_of h d"
  by (induction h) auto

lemma map_of_pushEntry_same: "map_of h d = Some es \<Longrightarrow> map_of (pushEntry d e h) d = Some (es @ [e])"
  by (induction h) auto

lemma recordTotal_noop:
  "settled h d t \<Longrightarrow> recordTotal h d t hpv ts day = h"
  by (simp add: settled_def recordTotal_def ensureDelegator_present Let_def)

lemma recordTotal_settles: "settled (recordTotal h d t hpv ts day) d t"
proof -
  obtain es where k: "map_of (ensureDelegator d h) d = Some es"
    using map_of_ensureDelegator_same [of d h] by auto
  show ?thesis
    using k map_of_pushEntry_same [OF k] epsilon_nonneg
    by (simp add: settled_def recordTotal_def Let_def eventsOf_def previousTotal_def binary64_zero)
qed

lemma recordTotal_other:
  assumes "d \<noteq> d'" and "settled h d t"
  shows "settled (recordTotal h d' t' hpv ts day) d t"
  using assms
  by (simp add: settled_def recordTotal_def Let_def eventsOf_def
      map_of_pushEntry_other map_of_ensureDelegator_other)

lemma mergeStep_other:
  assumes "delegatorOf account item \<noteq> Some d" and "settled h d t"
  shows "settled (mergeStep account isoDate fund shares h item) d t"
  using assms
  by (auto simp: mergeStep_def delegatorOf_def recordTotal_other split: operation.splits if_splits)

lemma foldl_mergeStep_other:
  assumes "\<forall>later \<in> set items. delegatorOf account later \<noteq> Some d" and "settled h d t"
  shows "settled (foldl (mergeStep account isoDate fund shares) h items) d t"
  using assms by (induction items arbitrary: h) (simp_all add: mergeStep_other)

lemma mergeStep_settled_noop:
  assumes "item_operation item = DelegateVestingShares d account t" and "settled h d t"
  shows "mergeStep account isoDate fund shares h item = h"
  using assms by (simp add: mergeStep_def recordTotal_noop)

lemma mergeStep_settles:
  assumes "item_operation item = DelegateVestingShares d account t"
  shows "settled (mergeStep account isoDate fund shares h item) d t"
  using assms by (simp add: mergeStep_def recordTotal_settles)

lemma mergeStep_irrelevant:
  assumes "delegatorOf account item = None"
  shows "mergeStep account isoDate fund shares h item = h"
  using assms by (auto simp: mergeStep_def delegatorOf_def split: operation.splits if_splits)

text \<open>
  C3 (as amended). Merging an item again leaves the history unchanged when no
  later item merged since is a delegation of the same delegator to the account:
  then the recomputed delta (the double that the subtraction of the last stored
  total gives) is at most epsilon in absolute value and the item is discarded. In
  particular merging an item twice in a row changes the history no more than
  merging it once. (The second merge may run with other global properties.)
\<close>

theorem merge_redelivery_of_latest:
  assumes "\<forall>later \<in> set after. delegatorOf account later = None \<or> delegatorOf account later \<noteq> delegatorOf account item"
  shows "mergeNewDelegationEvents account isoDate
           (mergeNewDelegationEvents account isoDate h (before @ [item] @ after) fund shares)
           [item] fund' shares'
         = mergeNewDelegationEvents account isoDate h (before @ [item] @ after) fund shares
         \<and> (\<forall>d t. item_operation item = DelegateVestingShares d account t \<longrightarrow>
               \<bar>binary64 (t - previousTotal (eventsOf
                  (mergeNewDelegationEvents account isoDate h (before @ [item] @ after) fund shares) d))\<bar>
               \<le> epsilon)"
proof (cases "delegatorOf account item")
  case None
  then have "mergeStep account isoDate fund' shares' hh item = hh" for hh
    by (rule mergeStep_irrelevant)
  moreover have "item_operation item \<noteq> DelegateVestingShares d account t" for d t
    using None by (auto simp: delegatorOf_def)
  ultimately show ?thesis by (simp add: mergeNewDelegationEvents_def)
next
  case (Some d)
  then obtain t where op: "item_operation item = DelegateVestingShares d account t"
    by (auto simp: delegatorOf_def split: operation.splits if_splits)
  let ?h1 = "foldl (mergeStep account isoDate fund shares) h before"
  let ?h2 = "mergeStep account isoDate fund shares ?h1 item"
  let ?h3 = "foldl (mergeStep account isoDate fund shares) ?h2 after"
  have "settled ?h2 d t" using op by (rule mergeStep_settles)
  moreover have "\<forall>later \<in> set after. delegatorOf account later \<noteq> Some d"
    using assms Some by auto
  ultimately have s3: "settled ?h3 d t" by (simp add: foldl_mergeStep_other)
  with op have "mergeStep account isoDate fund' shares' ?h3 item = ?h3"
    by (rule mergeStep_settled_noop)
  moreover have "\<bar>binary64 (t - previousTotal (eventsOf ?h3 d))\<bar> \<le> epsilon"
    using s3 by (simp add: settled_def)
  ultimately show ?thesis using op by (simp add: mergeNewDelegationEvents_def)
qed

lemma merge_item1_item2:
  "mergeNewDelegationEvents ''bayanihive'' (\<lambda>t. ''2024-05-01'') [] [item1, item2] 1 2 =
     [(''alice'',
       [\<lparr>vests = 100, totalVests = 100, hp = 50, timestamp = 1000, date = ''2024-05-01''\<rparr>,
        \<lparr>vests = 150, totalVests = 250, hp = 125, timestamp = 2000, date = ''2024-05-01''\<rparr>])]"
  by (simp add: mergeNewDelegationEvents_def mergeStep_def item1_def item2_def
      recordTotal_def eventsOf_def previousTotal_def epsilon_value vestsToHP_def toFixed_def Let_def
      binary64_100 binary64_150)

text \<open>
  C3 as stated fails for an item that is no longer the last one of its delegator:
  after 100 and then 250, merging the delegation of 100 again computes the delta
  -150 and appends it.
\<close>

theorem merge_redelivery_counterexample:
  "mergeNewDelegationEvents ''bayanihive'' (\<lambda>t. ''2024-05-01'')
     (mergeNewDelegationEvents ''bayanihive'' (\<lambda>t. ''2024-05-01'') [] [item1, item2] 1 2) [item1] 1 2
   = [(''alice'',
       [\<lparr>vests = 100, totalVests = 100, hp = 50, timestamp = 1000, date = ''2024-05-01''\<rparr>,
        \<lparr>vests = 150, totalVests = 250, hp = 125, timestamp = 2000, date = ''2024-05-01''\<rparr>,
        \<lparr>vests = - 150, totalVests = 100, hp = 50, timestamp = 1000, date = ''2024-05-01''\<rparr>])]
   \<and> mergeNewDelegationEvents ''bayanihive'' (\<lambda>t. ''2024-05-01'')
     (mergeNewDelegationEvents ''bayanihive'' (\<lambda>t. ''2024-05-01'') [] [item1, item2] 1 2) [item1] 1 2
   \<noteq> mergeNewDelegationEvents ''bayanihive'' (\<lambda>t. ''2024-05-01'') [] [item1, item2] 1 2
   \<and> epsilon < \<bar>binary64 (100 - previousTotal (eventsOf
        (mergeNewDelegationEvents ''bayanihive'' (\<lambda>t. ''2024-05-01'') [] [item1, item2] 1 2) ''alice''))\<bar>"
  unfolding merge_item1_item2
  by (simp add: mergeNewDelegationEvents_def mergeStep_def item1_def
      recordTotal_def eventsOf_def previousTotal_def epsilon_value vestsToHP_def toFixed_def Let_def
      binary64_minus_150)

theorem merge_redelivery_of_latest_witness:
  "mergeNewDelegationEvents ''bayanihive'' (\<lambda>t. ''2024-05-01'')
     (mergeNewDelegationEvents ''bayanihive'' (\<lambda>t. ''2024-05-01'') [] ([item1] @ [item2] @ []) 1 2) [item2] 3 4
   = [(''alice'',
       [\<lparr>vests = 100, totalVests = 100, hp = 50, timestamp = 1000, date = ''2024-05-01''\<rparr>,
        \<lparr>vests = 150, totalVests = 250, hp = 125, timestamp = 2000, date = ''2024-05-01''\<rparr>])]"
  using merge_redelivery_of_latest [of "[]" "''bayanihive''" item2 "\<lambda>t. ''2024-05-01''" "[]" "[item1]" 1 2 3 4]
  by (simp add: merge_item1_item2)

subsection \<open>Eligibility\<close>

lemma sum_list_insort_key: "sum_list (map f (insort_key k x xs)) = f x + sum_list (map f xs)"
  for f :: "'a \<Rightarrow> real" and k :: "'a \<Rightarrow> 'b::linorder"
  by (induction xs) simp_all

lemma sum_list_sort_key: "sum_list (map f (sort_key k xs)) = sum_list (map f xs)"
  for f :: "'a \<Rightarrow> real" and k :: "'a \<Rightarrow> 'b::linorder"
  by (induction xs) (simp_all add: sum_list_insort_key)

lemma walk_running: "fst (foldl (walkStep cutoff) acc es) = fst acc + sum_list (map vests es)"
  by (induction es arbitrary: acc) (simp_all add: walkStep_def Let_def)

lemma walk_eligible_nonneg: "0 \<le> snd acc \<Longrightarrow> 0 \<le> snd (foldl (walkStep cutoff) acc es)"
  by (induction es arbitrary: acc) (simp_all add: walkStep_def Let_def)

lemma runningBalanceOf_sum: "runningBalanceOf cutoff es = sum_list (map vests es)"
  by (simp add: runningBalanceOf_def walk_def walk_running sum_list_sort_key)

text \<open>
  C4 (as amended). For every contributor history and every cutoff, the eligible
  stake is at least 0 and at most the larger of 0 and the current stake (the final
  running balance of the walk, which is the sum of the deltas); so it is at most
  the current stake whenever that is not negative, and it is zero whenever the
  current stake is zero or negative.
\<close>

theorem eligible_bounds:
  "0 \<le> eligibleVestsOf cutoff es
   \<and> eligibleVestsOf cutoff es \<le> max 0 (runningBalanceOf cutoff es)
   \<and> (0 \<le> runningBalanceOf cutoff es \<longrightarrow> eligibleVestsOf cutoff es \<le> runningBalanceOf cutoff es)
   \<and> (runningBalanceOf cutoff es \<le> 0 \<longrightarrow> eligibleVestsOf cutoff es = 0)
   \<and> runningBalanceOf cutoff es = sum_list (map vests es)"
proof -
  have "0 \<le> snd (walk cutoff es)"
    unfolding walk_def by (rule walk_eligible_nonneg) simp
  then show ?thesis
    by (auto simp: eligibleVestsOf_def runningBalanceOf_def Let_def runningBalanceOf_sum [unfolded runningBalanceOf_def])
qed

lemma scenario_value: "eligibleVestsOf 1209600000 scenarioEvents = 1000 \<and> runningBalanceOf 1209600000 scenarioEvents = 1500"
  by (simp add: eligibleVestsOf_def runningBalanceOf_def walk_def walkStep_def scenarioEvents_def Let_def)

theorem eligible_bounds_witness:
  "eligibleVestsOf 1209600000 scenarioEvents = 1000
   \<and> runningBalanceOf 1209600000 scenarioEvents = 1500
   \<and> eligibleVestsOf 1209600000 scenarioEvents \<le> runningBalanceOf 1209600000 scenarioEvents
   \<and> runningBalanceOf 1000 overdrawnEvents \<le> 0
   \<and> eligibleVestsOf 1000 overdrawnEvents = 0"
proof -
  have r: "runningBalanceOf 1000 overdrawnEvents = - 50"
    by (simp add: runningBalanceOf_def walk_def walkStep_def overdrawnEvents_def Let_def)
  show ?thesis
    using eligible_bounds [of 1209600000 scenarioEvents] eligible_bounds [of 1000 overdrawnEvents]
    by (simp add: scenario_value r)
qed

text \<open>
  C4 as stated fails where the running balance is negative: the eligible stake
  is floored at 0 and so is above the current stake.
\<close>

theorem eligible_above_negative_stake:
  "eligibleVestsOf 1000 overdrawnEvents = 0
   \<and> runningBalanceOf 1000 overdrawnEvents = - 50
   \<and> \<not> eligibleVestsOf 1000 overdrawnEvents \<le> runningBalanceOf 1000 overdrawnEvents"
  by (simp add: eligibleVestsOf_def runningBalanceOf_def walk_def walkStep_def overdrawnEvents_def Let_def)

subsection \<open>Allocation\<close>

lemma round_half_error:
  fixes y p :: real
  assumes "0 < p"
  shows "\<bar>of_int \<lfloor>y * p + 1 / 2\<rfloor> / p - y\<bar> \<le> 1 / (2 * p)"
proof -
  let ?n = "of_int \<lfloor>y * p + 1 / 2\<rfloor> :: real"
  have e: "\<bar>?n - y * p\<bar> \<le> 1 / 2" by linarith
  have "?n / p - y = (?n - y * p) / p" using assms by (simp add: field_simps)
  then have "\<bar>?n / p - y\<bar> = \<bar>?n - y * p\<bar> / p" using assms by simp
  also have "\<dots> \<le> (1 / 2) / p"
    using e assms by (intro divide_right_mono) simp_all
  finally show ?thesis by simp
qed

lemma toFixed_error: "\<bar>toFixed digits x - x\<bar> \<le> 1 / (2 * 10 ^ digits)"
proof (cases "x < 0")
  case True
  have "\<bar>of_int \<lfloor>(- x) * 10 ^ digits + 1 / 2\<rfloor> / 10 ^ digits - (- x)\<bar> \<le> 1 / (2 * 10 ^ digits)"
    by (rule round_half_error) simp
  moreover have "\<bar>- (of_int \<lfloor>(- x) * 10 ^ digits + 1 / 2\<rfloor> / 10 ^ digits) - x\<bar>
      = \<bar>of_int \<lfloor>(- x) * 10 ^ digits + 1 / 2\<rfloor> / 10 ^ digits - (- x)\<bar>"
    by linarith
  ultimately show ?thesis using True by (simp only: toFixed_def if_True)
next
  case False
  have "\<bar>of_int \<lfloor>x * 10 ^ digits + 1 / 2\<rfloor> / 10 ^ digits - x\<bar> \<le> 1 / (2 * 10 ^ digits)"
    by (rule round_half_error) simp
  then show ?thesis using False by (simp only: toFixed_def if_False)
qed

lemma sum_list_error:
  fixes f g :: "'a \<Rightarrow> real"
  assumes "\<forall>x \<in> set xs. \<bar>f x - g x\<bar> \<le> e"
  shows "\<bar>sum_list (map f xs) - sum_list (map g xs)\<bar> \<le> real (length xs) * e"
  using assms
proof (induction xs)
  case Nil
  then show ?case by simp
next
  case (Cons x xs)
  then have "\<bar>f x - g x\<bar> \<le> e" and "\<bar>sum_list (map f xs) - sum_list (map g xs)\<bar> \<le> real (length xs) * e"
    by simp_all
  then show ?case by (simp add: algebra_simps)
qed

lemma sum_list_shares:
  fixes stakes :: "(string \<times> real) list"
  assumes "sum_list (map snd stakes) \<noteq> 0"
  shows "sum_list (map (\<lambda>(d, s). D * (s / sum_list (map snd stakes))) stakes) = D"
proof -
  have "sum_list (map (\<lambda>(d, s). D * (s / T)) stakes) = D * (sum_list (map snd stakes) / T)" for T :: real
    by (induction stakes) (auto simp: algebra_simps add_divide_distrib)
  then show ?thesis using assms by simp
qed

lemma sum_list_stakes_nonneg:
  fixes stakes :: "(string \<times> real) list"
  assumes "\<forall>(d, s) \<in> set stakes. 0 < s"
  shows "0 \<le> sum_list (map snd stakes)"
  using assms by (induction stakes) auto

lemma sum_list_positive:
  fixes stakes :: "(string \<times> real) list"
  assumes "stakes \<noteq> []" and "\<forall>(d, s) \<in> set stakes. 0 < s"
  shows "0 < sum_list (map snd stakes)"
proof (cases stakes)
  case Nil
  with assms(1) show ?thesis by simp
next
  case (Cons x rest)
  with assms(2) have "0 < snd x" and "\<forall>(d, s) \<in> set rest. 0 < s" by auto
  then have "0 < snd x" and "0 \<le> sum_list (map snd rest)"
    by (simp_all add: sum_list_stakes_nonneg)
  then show ?thesis using Cons by simp
qed

lemma rewards_sum:
  "sum_list (map rewardOf (baseRewards stakes T D))
   = sum_list (map (\<lambda>(d, s). toFixed 6 (D * (s / T))) stakes)"
proof -
  have "map rewardOf (baseRewards stakes T D)
      = map (\<lambda>(d, s). toFixed 6 (D * (s / T))) (sort_key (\<lambda>(d, s). - s) stakes)"
    by (simp add: baseRewards_def rewardOf_def Let_def case_prod_unfold)
  then show ?thesis by (simp add: sum_list_sort_key)
qed

lemma assign_fresh: "key \<notin> set (map fst m) \<Longrightarrow> assign key v m = m @ [(key, v)]"
  by (induction m) auto

lemma eligible_loop_total:
  assumes "distinct (map fst h)" and "set (map fst m) \<inter> set (map fst h) = {}"
    and "tot = sum_list (map snd m)"
  shows "snd (foldl (eligibleStep cutoff fund shares) (m, tot) h)
         = sum_list (map snd (fst (foldl (eligibleStep cutoff fund shares) (m, tot) h)))"
  using assms
proof (induction h arbitrary: m tot)
  case Nil
  then show ?case by simp
next
  case (Cons entry rest)
  obtain m' tot' where step: "eligibleStep cutoff fund shares (m, tot) entry = (m', tot')"
    by (cases "eligibleStep cutoff fund shares (m, tot) entry")
  have fresh: "fst entry \<notin> set (map fst m)" using Cons.prems(2) by auto
  have inv: "tot' = sum_list (map snd m')" and keys: "set (map fst m') \<subseteq> insert (fst entry) (set (map fst m))"
    using step Cons.prems(3) fresh
    by (auto simp: eligibleStep_def Let_def assign_fresh split: if_splits)
  have d: "distinct (map fst rest)" and n: "fst entry \<notin> set (map fst rest)"
    using Cons.prems(1) by simp_all
  have "set (map fst m) \<inter> set (map fst rest) = {}" using Cons.prems(2) by auto
  with keys n have disj: "set (map fst m') \<inter> set (map fst rest) = {}" by blast
  have "snd (foldl (eligibleStep cutoff fund shares) (m', tot') rest)
      = sum_list (map snd (fst (foldl (eligibleStep cutoff fund shares) (m', tot') rest)))"
    using d disj inv by (rule Cons.IH)
  then show ?case by (simp add: step)
qed

lemma eligibleDelegators_total:
  assumes "distinct (map fst h)"
  shows "snd (eligibleDelegators cutoff fund shares h)
         = sum_list (map snd (fst (eligibleDelegators cutoff fund shares h)))"
  unfolding eligibleDelegators_def using assms by (intro eligible_loop_total) simp_all

text \<open>
  C6. Allocation conserves the distributable total up to rounding: for any
  non-empty list of positive eligible stakes and any distributable amount
  \<open>D \<ge> 0\<close>, with the total the sum of the stakes as \<open>main\<close> accumulates
  it, each contributor's base reward is \<open>D\<close> times the stake divided by the
  total, rounded once to six decimals, and the sum of the rewards differs from
  \<open>D\<close> by at most \<open>10^-6\<close> times the number of contributors.
\<close>

theorem allocation_conservation:
  fixes stakes :: "(string \<times> real) list"
  assumes "stakes \<noteq> []" and "\<forall>(d, s) \<in> set stakes. 0 < s" and "0 \<le> D"
  shows "length (baseRewards stakes (sum_list (map snd stakes)) D) = length stakes
    \<and> (\<forall>(d, s) \<in> set stakes.
          (d, toFixed 3 s, toFixed 6 (D * s / sum_list (map snd stakes)))
            \<in> set (baseRewards stakes (sum_list (map snd stakes)) D))
    \<and> \<bar>sum_list (map rewardOf (baseRewards stakes (sum_list (map snd stakes)) D)) - D\<bar>
        \<le> (1 / 10 ^ 6) * real (length stakes)"
proof -
  let ?T = "sum_list (map snd stakes)"
  have T: "?T \<noteq> 0" using sum_list_positive [OF assms(1,2)] by simp
  have len: "length (baseRewards stakes ?T D) = length stakes"
    by (simp add: baseRewards_def)
  have mem: "\<forall>(d, s) \<in> set stakes. (d, toFixed 3 s, toFixed 6 (D * s / ?T)) \<in> set (baseRewards stakes ?T D)"
    by (force simp: baseRewards_def Let_def)
  have "\<forall>x \<in> set stakes. \<bar>(\<lambda>(d, s). toFixed 6 (D * (s / ?T))) x - (\<lambda>(d, s). D * (s / ?T)) x\<bar> \<le> 1 / (2 * 10 ^ 6)"
    using toFixed_error [of 6] by (auto simp: case_prod_unfold)
  then have "\<bar>sum_list (map (\<lambda>(d, s). toFixed 6 (D * (s / ?T))) stakes)
             - sum_list (map (\<lambda>(d, s). D * (s / ?T)) stakes)\<bar> \<le> real (length stakes) * (1 / (2 * 10 ^ 6))"
    by (rule sum_list_error)
  then have "\<bar>sum_list (map rewardOf (baseRewards stakes ?T D)) - D\<bar> \<le> real (length stakes) * (1 / (2 * 10 ^ 6))"
    by (simp only: rewards_sum sum_list_shares [OF T])
  also have "\<dots> \<le> (1 / 10 ^ 6) * real (length stakes)" by simp
  finally show ?thesis using len mem by blast
qed

lemma baseRewards_thirds: "baseRewards [(''alice'', 1), (''bob'', 1), (''carol'', 1)] 3 1 =
   [(''alice'', 1, 333333 / 1000000), (''bob'', 1, 333333 / 1000000), (''carol'', 1, 333333 / 1000000)]"
  by (simp add: baseRewards_def toFixed_def Let_def)

theorem allocation_conservation_witness:
  "baseRewards [(''alice'', 1), (''bob'', 1), (''carol'', 1)] 3 1 =
     [(''alice'', 1, 333333 / 1000000), (''bob'', 1, 333333 / 1000000), (''carol'', 1, 333333 / 1000000)]
   \<and> \<bar>sum_list (map rewardOf (baseRewards [(''alice'', 1), (''bob'', 1), (''carol'', 1)] 3 1)) - 1\<bar>
       \<le> (1 / 10 ^ 6) * 3"
  using allocation_conservation [of "[(''alice'', 1), (''bob'', 1), (''carol'', 1)]" 1]
  by (simp add: baseRewards_thirds)

subsection \<open>The payout executor\<close>

lemma sendCalls_append: "sendCalls (xs @ ys) = sendCalls xs @ sendCalls ys"
  by (induction xs rule: sendCalls.induct) simp_all

lemma broadcastMemos_append: "broadcastMemos (xs @ ys) = broadcastMemos xs @ broadcastMemos ys"
  by (induction xs rule: broadcastMemos.induct) simp_all

lemma broadcastLoop_frame:
  "\<exists>E. effects (snd (broadcastLoop net memo k s)) = effects s @ E
       \<and> sendCalls E = [] \<and> set (broadcastMemos E) \<subseteq> {memo} \<and> filter isSave E = []
       \<and> sbiLog (snd (broadcastLoop net memo k s)) = sbiLog s
       \<and> totalSent (snd (broadcastLoop net memo k s)) = totalSent s"
proof (induction k arbitrary: s)
  case 0
  then show ?case by simp
next
  case (Suc k)
  let ?s1 = "s\<lparr>broadcasts := Suc (broadcasts s), effects := effects s @ [Broadcast memo (net (broadcasts s))]\<rparr>"
  let ?s2 = "if 0 < k then setNextNode ?s1 else ?s1"
  show ?case
  proof (cases "net (broadcasts s)")
    case True
    then show ?thesis by (simp add: Let_def)
  next
    case False
    from Suc.IH [of ?s2] obtain E where
      E: "effects (snd (broadcastLoop net memo k ?s2)) = effects ?s2 @ E"
        "sendCalls E = []" "set (broadcastMemos E) \<subseteq> {memo}" "filter isSave E = []"
        "sbiLog (snd (broadcastLoop net memo k ?s2)) = sbiLog ?s2"
        "totalSent (snd (broadcastLoop net memo k ?s2)) = totalSent ?s2"
      by blast
    have unfold: "broadcastLoop net memo (Suc k) s = broadcastLoop net memo k ?s2"
      using False by (simp add: Let_def)
    have s2: "effects ?s2 = effects s @ [Broadcast memo False]" "sbiLog ?s2 = sbiLog s"
      "totalSent ?s2 = totalSent s"
      using False by (simp_all add: setNextNode_def)
    have "effects (snd (broadcastLoop net memo (Suc k) s)) = effects s @ (Broadcast memo False # E)"
      unfolding unfold E(1) s2 by simp
    moreover have "sbiLog (snd (broadcastLoop net memo (Suc k) s)) = sbiLog s"
      and "totalSent (snd (broadcastLoop net memo (Suc k) s)) = totalSent s"
      unfolding unfold E(5,6) s2 by simp_all
    moreover have "sendCalls (Broadcast memo False # E) = []"
      and "set (broadcastMemos (Broadcast memo False # E)) \<subseteq> {memo}"
      and "filter isSave (Broadcast memo False # E) = []"
      using E(2,3,4) by simp_all
    ultimately show ?thesis by blast
  qed
qed

lemma sendSBI_frame:
  "\<exists>E. effects (snd (sendSBI env net delegator s)) = effects s @ E
       \<and> sendCalls E = [] \<and> set (broadcastMemos E) \<subseteq> {memoOf env delegator} \<and> filter isSave E = []
       \<and> sbiLog (snd (sendSBI env net delegator s)) = sbiLog s
       \<and> totalSent (snd (sendSBI env net delegator s)) = totalSent s"
  using broadcastLoop_frame [of net "memoOf env delegator" 3 s]
  by (auto simp: sendSBI_def memoOf_def Let_def)

lemma payWhile_unfold:
  "payWhile env net today delegator data s =
     (if SBI_CHUNK \<le> balance data then
        (if fst (sendSBI env net delegator s)
         then payWhile env net today delegator (paidEntry today data)
                (loggedState today delegator (calledState env net delegator s))
         else (data, calledState env net delegator s))
      else (data, s))"
  by (subst payWhile.simps) (simp add: Let_def paidEntry_def loggedState_def calledState_def)

lemma payWhile_induct:
  assumes "\<And>env net today delegator data s.
             (SBI_CHUNK \<le> balance data \<Longrightarrow> fst (sendSBI env net delegator s) \<Longrightarrow>
                P env net today delegator (paidEntry today data)
                  (loggedState today delegator (calledState env net delegator s)))
             \<Longrightarrow> P env net today delegator data s"
  shows "P env net today delegator data s"
proof (induction env net today delegator data s rule: payWhile.induct)
  case (1 env net today delegator data s)
  show ?case
  proof (rule assms)
    assume chunk: "SBI_CHUNK \<le> balance data" and success: "fst (sendSBI env net delegator s)"
    show "P env net today delegator (paidEntry today data)
            (loggedState today delegator (calledState env net delegator s))"
      unfolding paidEntry_def loggedState_def calledState_def
      by (rule "1" [OF chunk refl refl refl success])
  qed
qed

lemma calledState_frame:
  "\<exists>E. effects (calledState env net delegator s) = effects s @ E
       \<and> sendCalls E = [(delegator, fst (sendSBI env net delegator s))]
       \<and> set (broadcastMemos E) \<subseteq> {memoOf env delegator} \<and> filter isSave E = []
       \<and> sbiLog (calledState env net delegator s) = sbiLog s
       \<and> totalSent (calledState env net delegator s) = totalSent s"
proof -
  from sendSBI_frame [of env net delegator s] obtain E where
    E: "effects (snd (sendSBI env net delegator s)) = effects s @ E"
      "sendCalls E = []" "set (broadcastMemos E) \<subseteq> {memoOf env delegator}" "filter isSave E = []"
      "sbiLog (snd (sendSBI env net delegator s)) = sbiLog s"
      "totalSent (snd (sendSBI env net delegator s)) = totalSent s"
    by blast
  let ?E = "E @ [SendSBI delegator (fst (sendSBI env net delegator s))]"
  have "effects (calledState env net delegator s) = effects s @ ?E"
    by (simp add: calledState_def E(1))
  moreover have "sendCalls ?E = [(delegator, fst (sendSBI env net delegator s))]"
    by (simp add: sendCalls_append E(2))
  moreover have "set (broadcastMemos ?E) \<subseteq> {memoOf env delegator}"
    using E(3) by (simp add: broadcastMemos_append)
  moreover have "filter isSave ?E = []" using E(4) by simp
  moreover have "sbiLog (calledState env net delegator s) = sbiLog s"
    and "totalSent (calledState env net delegator s) = totalSent s"
    by (simp_all add: calledState_def E(5,6))
  ultimately show ?thesis by blast
qed

lemma payWhile_frame:
  "\<exists>E new. effects (snd (payWhile env net today delegator data s)) = effects s @ E
       \<and> sbiLog (snd (payWhile env net today delegator data s)) = sbiLog s @ new
       \<and> set (map fst (sendCalls E)) \<subseteq> {delegator}
       \<and> set (broadcastMemos E) \<subseteq> {memoOf env delegator}
       \<and> filter isSave E = []
       \<and> map log_delegator new = map fst (filter snd (sendCalls E))
       \<and> (SBI_CHUNK \<le> balance data \<longrightarrow> sendCalls E \<noteq> [])"
proof (induction env net today delegator data s rule: payWhile_induct)
  case (1 env net today delegator data s)
  let ?c = "calledState env net delegator s"
  from calledState_frame [of env net delegator s] obtain E0 where
    E0: "effects ?c = effects s @ E0"
      "sendCalls E0 = [(delegator, fst (sendSBI env net delegator s))]"
      "set (broadcastMemos E0) \<subseteq> {memoOf env delegator}" "filter isSave E0 = []"
      "sbiLog ?c = sbiLog s" "totalSent ?c = totalSent s"
    by blast
  show ?case
  proof (cases "SBI_CHUNK \<le> balance data")
    case False
    then have "payWhile env net today delegator data s = (data, s)"
      by (subst payWhile_unfold) simp
    then show ?thesis using False by simp
  next
    case chunk: True
    show ?thesis
    proof (cases "fst (sendSBI env net delegator s)")
      case False
      then have "payWhile env net today delegator data s = (data, ?c)"
        using chunk by (subst payWhile_unfold) simp
      moreover have "sendCalls E0 = [(delegator, False)]" using E0(2) False by simp
      ultimately have "effects (snd (payWhile env net today delegator data s)) = effects s @ E0
        \<and> sbiLog (snd (payWhile env net today delegator data s)) = sbiLog s @ []
        \<and> set (map fst (sendCalls E0)) \<subseteq> {delegator}
        \<and> set (broadcastMemos E0) \<subseteq> {memoOf env delegator}
        \<and> filter isSave E0 = []
        \<and> map log_delegator [] = map fst (filter snd (sendCalls E0))
        \<and> (SBI_CHUNK \<le> balance data \<longrightarrow> sendCalls E0 \<noteq> [])"
        using E0 by simp
      then show ?thesis by (intro exI [of _ E0] exI [of _ "[]"])
    next
      case True
      let ?l = "loggedState today delegator ?c"
      let ?entry = "\<lparr>log_date = today, log_delegator = delegator, log_sent = SBI_CHUNK\<rparr>"
      have unfold: "payWhile env net today delegator data s
          = payWhile env net today delegator (paidEntry today data) ?l"
        using chunk True by (subst payWhile_unfold) simp
      from "1" [OF chunk True] obtain E1 new1 where
        E1: "effects (snd (payWhile env net today delegator (paidEntry today data) ?l)) = effects ?l @ E1"
          "sbiLog (snd (payWhile env net today delegator (paidEntry today data) ?l)) = sbiLog ?l @ new1"
          "set (map fst (sendCalls E1)) \<subseteq> {delegator}"
          "set (broadcastMemos E1) \<subseteq> {memoOf env delegator}"
          "filter isSave E1 = []"
          "map log_delegator new1 = map fst (filter snd (sendCalls E1))"
        by blast
      have l: "effects ?l = effects s @ E0" "sbiLog ?l = sbiLog s @ [?entry]"
        by (simp_all add: loggedState_def E0)
      have c0: "sendCalls E0 = [(delegator, True)]" using E0(2) True by simp
      have g1: "effects (snd (payWhile env net today delegator data s)) = effects s @ (E0 @ E1)"
        by (simp only: unfold E1(1) l(1) append_assoc)
      have g2: "sbiLog (snd (payWhile env net today delegator data s)) = sbiLog s @ (?entry # new1)"
        by (simp only: unfold E1(2) l(2) append_assoc append_Cons append_Nil)
      have g3: "set (map fst (sendCalls (E0 @ E1))) \<subseteq> {delegator}"
        using E1(3) by (simp add: sendCalls_append c0)
      have g4: "set (broadcastMemos (E0 @ E1)) \<subseteq> {memoOf env delegator}"
        using E1(4) E0(3) by (simp add: broadcastMemos_append)
      have g5: "filter isSave (E0 @ E1) = []"
        using E1(5) E0(4) by simp
      have g6: "map log_delegator (?entry # new1) = map fst (filter snd (sendCalls (E0 @ E1)))"
        using E1(6) by (simp add: sendCalls_append c0)
      have g7: "SBI_CHUNK \<le> balance data \<longrightarrow> sendCalls (E0 @ E1) \<noteq> []"
        by (simp add: sendCalls_append c0)
      from g1 g2 g3 g4 g5 g6 g7
      have "effects (snd (payWhile env net today delegator data s)) = effects s @ (E0 @ E1)
        \<and> sbiLog (snd (payWhile env net today delegator data s)) = sbiLog s @ (?entry # new1)
        \<and> set (map fst (sendCalls (E0 @ E1))) \<subseteq> {delegator}
        \<and> set (broadcastMemos (E0 @ E1)) \<subseteq> {memoOf env delegator}
        \<and> filter isSave (E0 @ E1) = []
        \<and> map log_delegator (?entry # new1) = map fst (filter snd (sendCalls (E0 @ E1)))
        \<and> (SBI_CHUNK \<le> balance data \<longrightarrow> sendCalls (E0 @ E1) \<noteq> [])"
        by (intro conjI)
      then show ?thesis by (intro exI [of _ "E0 @ E1"] exI [of _ "?entry # new1"])
    qed
  qed
qed



lemma entryFrame_Nil: "entryFrame env X [] [] []"
  by (simp add: entryFrame_def)

lemma entryFrame_skip:
  assumes "entryFrame env X rest E new" and "d = ''_meta'' \<or> toLowerCase d \<in> X"
  shows "entryFrame env X ((d, data) # rest) E new"
  using assms by (auto simp: entryFrame_def)

lemma entryFrame_pay:
  assumes rest: "entryFrame env X rest E1 new1"
    and d: "d \<noteq> ''_meta''" "toLowerCase d \<notin> X"
    and calls: "set (map fst (sendCalls E0)) \<subseteq> {d}"
    and memos: "set (broadcastMemos E0) \<subseteq> {memoOf env d}"
    and saves: "filter isSave E0 = []"
    and logged: "map log_delegator new0 = map fst (filter snd (sendCalls E0))"
    and called: "SBI_CHUNK \<le> balance data \<longrightarrow> sendCalls E0 \<noteq> []"
  shows "entryFrame env X ((d, data) # rest) (E0 @ E1) (new0 @ new1)"
proof -
  have c1: "\<forall>d' \<in> set (map fst (sendCalls (E0 @ E1))). d' \<noteq> ''_meta'' \<and> toLowerCase d' \<notin> X"
    using rest d calls by (auto simp: entryFrame_def sendCalls_append)
  have c2: "\<forall>m \<in> set (broadcastMemos (E0 @ E1)). \<exists>d'. m = memoOf env d' \<and> d' \<noteq> ''_meta'' \<and> toLowerCase d' \<notin> X"
    using rest d memos by (auto simp: entryFrame_def broadcastMemos_append)
  have c3: "filter isSave (E0 @ E1) = []"
    using rest saves by (simp add: entryFrame_def)
  have c4: "map log_delegator (new0 @ new1) = map fst (filter snd (sendCalls (E0 @ E1)))"
    using rest logged by (simp add: entryFrame_def sendCalls_append)
  have "SBI_CHUNK \<le> balance data \<longrightarrow> d \<in> set (map fst (sendCalls E0))"
  proof
    assume "SBI_CHUNK \<le> balance data"
    with called have "set (map fst (sendCalls E0)) \<noteq> {}" by simp
    with calls show "d \<in> set (map fst (sendCalls E0))"
      using subset_singletonD [of "set (map fst (sendCalls E0))" d] by auto
  qed
  then have c5: "\<forall>(d', data') \<in> set ((d, data) # rest).
      d' \<noteq> ''_meta'' \<and> toLowerCase d' \<notin> X \<and> SBI_CHUNK \<le> balance data'
        \<longrightarrow> d' \<in> set (map fst (sendCalls (E0 @ E1)))"
    using rest by (auto simp: entryFrame_def sendCalls_append)
  from c1 c2 c3 c4 c5 show ?thesis unfolding entryFrame_def by (intro conjI)
qed

lemma payEntries_frame:
  "\<exists>E new. effects (snd (payEntries env net X today bs s)) = effects s @ E
       \<and> sbiLog (snd (payEntries env net X today bs s)) = sbiLog s @ new
       \<and> entryFrame env X bs E new"
proof (induction bs arbitrary: s)
  case Nil
  have "effects (snd (payEntries env net X today [] s)) = effects s @ []
       \<and> sbiLog (snd (payEntries env net X today [] s)) = sbiLog s @ []
       \<and> entryFrame env X [] [] []"
    by (simp add: entryFrame_Nil)
  then show ?case by (intro exI)
next
  case (Cons entry rest)
  obtain d data where entry: "entry = (d, data)" by (cases entry)
  show ?case
  proof (cases "d = ''_meta'' \<or> toLowerCase d \<in> X")
    case True
    from Cons.IH [of s] obtain E new where
      r: "effects (snd (payEntries env net X today rest s)) = effects s @ E"
        "sbiLog (snd (payEntries env net X today rest s)) = sbiLog s @ new"
        "entryFrame env X rest E new"
      by blast
    have "snd (payEntries env net X today (entry # rest) s) = snd (payEntries env net X today rest s)"
      using True entry by (auto simp: Let_def)
    with r entryFrame_skip [OF r(3) True, of data]
    have "effects (snd (payEntries env net X today (entry # rest) s)) = effects s @ E
       \<and> sbiLog (snd (payEntries env net X today (entry # rest) s)) = sbiLog s @ new
       \<and> entryFrame env X (entry # rest) E new"
      by (simp add: entry)
    then show ?thesis by (intro exI)
  next
    case False
    let ?p = "payWhile env net today d data s"
    from payWhile_frame [of env net today d data s] obtain E0 new0 where
      p: "effects (snd ?p) = effects s @ E0" "sbiLog (snd ?p) = sbiLog s @ new0"
        "set (map fst (sendCalls E0)) \<subseteq> {d}" "set (broadcastMemos E0) \<subseteq> {memoOf env d}"
        "filter isSave E0 = []" "map log_delegator new0 = map fst (filter snd (sendCalls E0))"
        "SBI_CHUNK \<le> balance data \<longrightarrow> sendCalls E0 \<noteq> []"
      by blast
    from Cons.IH [of "snd ?p"] obtain E1 new1 where
      r: "effects (snd (payEntries env net X today rest (snd ?p))) = effects (snd ?p) @ E1"
        "sbiLog (snd (payEntries env net X today rest (snd ?p))) = sbiLog (snd ?p) @ new1"
        "entryFrame env X rest E1 new1"
      by blast
    have unfold: "snd (payEntries env net X today (entry # rest) s)
        = snd (payEntries env net X today rest (snd ?p))"
      using False entry by (simp add: Let_def)
    have f: "entryFrame env X (entry # rest) (E0 @ E1) (new0 @ new1)"
      unfolding entry using r(3) False p(3-7) by (intro entryFrame_pay) simp_all
    have "effects (snd (payEntries env net X today (entry # rest) s)) = effects s @ (E0 @ E1)"
      by (simp only: unfold r(1) p(1) append_assoc)
    moreover have "sbiLog (snd (payEntries env net X today (entry # rest) s)) = sbiLog s @ (new0 @ new1)"
      by (simp only: unfold r(2) p(2) append_assoc)
    ultimately have "effects (snd (payEntries env net X today (entry # rest) s)) = effects s @ (E0 @ E1)
       \<and> sbiLog (snd (payEntries env net X today (entry # rest) s)) = sbiLog s @ (new0 @ new1)
       \<and> entryFrame env X (entry # rest) (E0 @ E1) (new0 @ new1)"
      using f by (intro conjI)
    then show ?thesis by (intro exI)
  qed
qed

lemma confirmedMemos_append: "confirmedMemos (xs @ ys) = confirmedMemos xs @ confirmedMemos ys"
  by (induction xs rule: confirmedMemos.induct) simp_all

lemma chain_fold: "chain (fold applyEffect E w) = chain w @ confirmedMemos E"
  by (induction E arbitrary: w rule: confirmedMemos.induct) simp_all

lemma files_fold:
  "filter isSave E = [] \<Longrightarrow>
     balances_file (fold applyEffect E w) = balances_file w
     \<and> log_file (fold applyEffect E w) = log_file w"
proof (induction E arbitrary: w)
  case Nil
  then show ?case by simp
next
  case (Cons e E)
  then show ?case by (cases e) (simp_all split: if_splits)
qed

lemma processSBIPayouts_payEntries:
  "fst (processSBIPayouts env net cfg sbi today bf lf)
     = fst (payEntries env net (getExcludedDelegators cfg sbi) today (loadJSON bf []) (startState (loadJSON lf [])))
   \<and> effects (snd (processSBIPayouts env net cfg sbi today bf lf))
     = effects (snd (payEntries env net (getExcludedDelegators cfg sbi) today (loadJSON bf []) (startState (loadJSON lf []))))
       @ [SaveBalances (fst (payEntries env net (getExcludedDelegators cfg sbi) today (loadJSON bf []) (startState (loadJSON lf [])))),
          SaveLog (sbiLog (snd (payEntries env net (getExcludedDelegators cfg sbi) today (loadJSON bf []) (startState (loadJSON lf [])))))]
   \<and> sbiLog (snd (processSBIPayouts env net cfg sbi today bf lf))
     = sbiLog (snd (payEntries env net (getExcludedDelegators cfg sbi) today (loadJSON bf []) (startState (loadJSON lf []))))"
  by (simp add: processSBIPayouts_def Let_def startState_def)

lemma processSBIPayouts_frame:
  "\<exists>E new. effects (snd (processSBIPayouts env net cfg sbi today bf lf))
          = E @ [SaveBalances (fst (processSBIPayouts env net cfg sbi today bf lf)), SaveLog (loadJSON lf [] @ new)]
       \<and> sbiLog (snd (processSBIPayouts env net cfg sbi today bf lf)) = loadJSON lf [] @ new
       \<and> entryFrame env (getExcludedDelegators cfg sbi) (loadJSON bf []) E new"
proof -
  let ?X = "getExcludedDelegators cfg sbi"
  let ?r = "payEntries env net ?X today (loadJSON bf []) (startState (loadJSON lf []))"
  from payEntries_frame [of env net ?X today "loadJSON bf []" "startState (loadJSON lf [])"]
  obtain E new where
    f: "effects (snd ?r) = effects (startState (loadJSON lf [])) @ E"
      "sbiLog (snd ?r) = sbiLog (startState (loadJSON lf [])) @ new"
      "entryFrame env ?X (loadJSON bf []) E new"
    by blast
  have e: "effects (snd ?r) = E" and l: "sbiLog (snd ?r) = loadJSON lf [] @ new"
    using f(1,2) by (simp_all add: startState_def)
  note p = processSBIPayouts_payEntries [of env net cfg sbi today bf lf]
  have "effects (snd (processSBIPayouts env net cfg sbi today bf lf))
          = E @ [SaveBalances (fst (processSBIPayouts env net cfg sbi today bf lf)), SaveLog (loadJSON lf [] @ new)]"
    using p e l by simp
  moreover have "sbiLog (snd (processSBIPayouts env net cfg sbi today bf lf)) = loadJSON lf [] @ new"
    using p l by simp
  ultimately have "effects (snd (processSBIPayouts env net cfg sbi today bf lf))
          = E @ [SaveBalances (fst (processSBIPayouts env net cfg sbi today bf lf)), SaveLog (loadJSON lf [] @ new)]
       \<and> sbiLog (snd (processSBIPayouts env net cfg sbi today bf lf)) = loadJSON lf [] @ new
       \<and> entryFrame env ?X (loadJSON bf []) E new"
    using f(3) by (intro conjI)
  then show ?thesis by (intro exI)
qed



lemma toFixed_of_int: "toFixed 3 (of_int k / 1000) = of_int k / 1000"
proof (cases "k < 0")
  case True
  have "\<lfloor>- (of_int k / 1000 :: real) * 10 ^ 3 + 1 / 2\<rfloor> = - k"
  proof -
    have "- (of_int k / 1000 :: real) * 10 ^ 3 + 1 / 2 = of_int (- k) + 1 / 2" by simp
    then show ?thesis by (simp only: floor_add_int) simp
  qed
  then show ?thesis using True by (simp add: toFixed_def)
next
  case False
  have "\<lfloor>(of_int k / 1000 :: real) * 10 ^ 3 + 1 / 2\<rfloor> = k"
  proof -
    have "(of_int k / 1000 :: real) * 10 ^ 3 + 1 / 2 = of_int k + 1 / 2" by simp
    then show ?thesis by (simp only: floor_add_int) simp
  qed
  then show ?thesis using False by (simp add: toFixed_def)
qed

lemma formatHIVE_fixed:
  assumes "formatHIVE x = x"
  shows "\<exists>k :: int. x = of_int k / 1000"
proof (cases "x < 0")
  case True
  with assms have "x = of_int (- \<lfloor>(- x) * 10 ^ 3 + 1 / 2\<rfloor>) / 1000"
    by (simp add: formatHIVE_def toFixed_def)
  then show ?thesis by (rule exI)
next
  case False
  with assms have "x = of_int \<lfloor>x * 10 ^ 3 + 1 / 2\<rfloor> / 1000"
    by (simp add: formatHIVE_def toFixed_def)
  then show ?thesis by (rule exI)
qed

lemma formatHIVE_add_chunk:
  assumes "formatHIVE x = x"
  shows "formatHIVE (x + SBI_CHUNK) = x + SBI_CHUNK"
proof -
  from assms obtain k :: int where k: "x = of_int k / 1000" using formatHIVE_fixed by blast
  have "x + SBI_CHUNK = of_int (k + 1000) / 1000" by (simp add: k SBI_CHUNK_def)
  then show ?thesis by (simp only: formatHIVE_def toFixed_of_int)
qed

lemma sendSBI_succeeds:
  assumes "IS_DRY_RUN env \<or> (ACTIVE_KEY env \<noteq> [] \<and> (\<forall>n. net n))"
  shows "fst (sendSBI env net delegator s)"
  using assms by (auto simp: sendSBI_def Let_def numeral_3_eq_3)

lemma sendSBI_dry_run: "IS_DRY_RUN env \<Longrightarrow> sendSBI env net delegator s = (True, s)"
  by (simp add: sendSBI_def)

lemma sendSBI_confirmed_at_once:
  assumes "\<not> IS_DRY_RUN env" and "ACTIVE_KEY env \<noteq> []" and "net (broadcasts s)"
  shows "sendSBI env net delegator s
     = (True, s\<lparr>broadcasts := Suc (broadcasts s),
                effects := effects s @ [Broadcast (memoOf env delegator) True]\<rparr>)"
  using assms by (simp add: sendSBI_def memoOf_def Let_def numeral_3_eq_3)

lemma calledState_succeeds:
  assumes "IS_DRY_RUN env \<or> (ACTIVE_KEY env \<noteq> [] \<and> (\<forall>n. net n))"
  shows "effects (calledState env net delegator s)
     = effects s @ (if IS_DRY_RUN env then [] else [Broadcast (memoOf env delegator) True])
         @ [SendSBI delegator True]"
proof (cases "IS_DRY_RUN env")
  case True
  then show ?thesis by (simp add: calledState_def sendSBI_dry_run)
next
  case False
  with assms have "ACTIVE_KEY env \<noteq> []" and "net (broadcasts s)" by simp_all
  with False show ?thesis by (simp add: calledState_def sendSBI_confirmed_at_once)
qed

lemma calledState_fields:
  "sbiLog (calledState env net delegator s) = sbiLog s"
  "totalSent (calledState env net delegator s) = totalSent s"
  "sendCalls (effects (calledState env net delegator s))
     = sendCalls (effects s) @ [(delegator, fst (sendSBI env net delegator s))]"
  using calledState_frame [of env net delegator s] by (auto simp: sendCalls_append)

lemma loggedState_fields:
  "sbiLog (loggedState today delegator s)
     = sbiLog s @ [\<lparr>log_date = today, log_delegator = delegator, log_sent = SBI_CHUNK\<rparr>]"
  "totalSent (loggedState today delegator s) = totalSent s + SBI_CHUNK"
  "effects (loggedState today delegator s) = effects s"
  by (simp_all add: loggedState_def)

lemma payWhile_two_chunks:
  assumes succeed: "IS_DRY_RUN env \<or> (ACTIVE_KEY env \<noteq> [] \<and> (\<forall>n. net n))"
    and rounded: "formatHIVE (case sent of None \<Rightarrow> 0 | Some t \<Rightarrow> t) = (case sent of None \<Rightarrow> 0 | Some t \<Rightarrow> t)"
  shows "fst (payWhile env net today delegator \<lparr>balance = 12 / 5, total_sent = sent, last_updated = lu\<rparr> s)
           = \<lparr>balance = 2 / 5, total_sent = Some ((case sent of None \<Rightarrow> 0 | Some t \<Rightarrow> t) + 2), last_updated = today\<rparr>
         \<and> sendCalls (effects (snd (payWhile env net today delegator \<lparr>balance = 12 / 5, total_sent = sent, last_updated = lu\<rparr> s)))
           = sendCalls (effects s) @ [(delegator, True), (delegator, True)]
         \<and> sbiLog (snd (payWhile env net today delegator \<lparr>balance = 12 / 5, total_sent = sent, last_updated = lu\<rparr> s))
           = sbiLog s @ [\<lparr>log_date = today, log_delegator = delegator, log_sent = 1\<rparr>,
                         \<lparr>log_date = today, log_delegator = delegator, log_sent = 1\<rparr>]
         \<and> totalSent (snd (payWhile env net today delegator \<lparr>balance = 12 / 5, total_sent = sent, last_updated = lu\<rparr> s))
           = totalSent s + 2
         \<and> effects (snd (payWhile env net today delegator \<lparr>balance = 12 / 5, total_sent = sent, last_updated = lu\<rparr> s))
           = effects s @ (if IS_DRY_RUN env then [] else [Broadcast (memoOf env delegator) True])
               @ [SendSBI delegator True]
               @ (if IS_DRY_RUN env then [] else [Broadcast (memoOf env delegator) True])
               @ [SendSBI delegator True]"
proof -
  let ?sent0 = "case sent of None \<Rightarrow> 0 | Some t \<Rightarrow> t"
  let ?d0 = "\<lparr>balance = 12 / 5, total_sent = sent, last_updated = lu\<rparr>"
  let ?d1 = "\<lparr>balance = 7 / 5, total_sent = Some (?sent0 + 1), last_updated = today\<rparr>"
  let ?d2 = "\<lparr>balance = 2 / 5, total_sent = Some (?sent0 + 2), last_updated = today\<rparr>"
  have ok: "fst (sendSBI env net delegator s')" for s'
    using succeed by (rule sendSBI_succeeds)
  have r1: "formatHIVE (?sent0 + SBI_CHUNK) = ?sent0 + 1"
    using formatHIVE_add_chunk [OF rounded] by (simp add: SBI_CHUNK_def)
  then have "formatHIVE (?sent0 + 1) = ?sent0 + 1" by (simp add: SBI_CHUNK_def)
  then have r2: "formatHIVE (?sent0 + 1 + SBI_CHUNK) = ?sent0 + 2"
    using formatHIVE_add_chunk [of "?sent0 + 1"] by (simp add: SBI_CHUNK_def)
  have p1: "paidEntry today ?d0 = ?d1"
    using r1 by (simp add: paidEntry_def SBI_CHUNK_def formatHIVE_def toFixed_def)
  have p2: "paidEntry today ?d1 = ?d2"
    using r2 by (simp add: paidEntry_def SBI_CHUNK_def formatHIVE_def toFixed_def)
  let ?s1 = "loggedState today delegator (calledState env net delegator s)"
  let ?s2 = "loggedState today delegator (calledState env net delegator ?s1)"
  have "payWhile env net today delegator ?d0 s = payWhile env net today delegator ?d1 ?s1"
    by (subst payWhile_unfold) (simp add: ok p1 SBI_CHUNK_def)
  also have "\<dots> = payWhile env net today delegator ?d2 ?s2"
    by (subst payWhile_unfold) (simp add: ok p2 SBI_CHUNK_def)
  also have "\<dots> = (?d2, ?s2)"
    by (subst payWhile_unfold) (simp add: SBI_CHUNK_def)
  finally have run: "payWhile env net today delegator ?d0 s = (?d2, ?s2)" .
  have e: "effects ?s2 = effects s @ (if IS_DRY_RUN env then [] else [Broadcast (memoOf env delegator) True])
               @ [SendSBI delegator True]
               @ (if IS_DRY_RUN env then [] else [Broadcast (memoOf env delegator) True])
               @ [SendSBI delegator True]"
    by (simp add: loggedState_fields calledState_succeeds [OF succeed])
  have "fst (?d2, ?s2) = ?d2
      \<and> sendCalls (effects (snd (?d2, ?s2))) = sendCalls (effects s) @ [(delegator, True), (delegator, True)]
      \<and> sbiLog (snd (?d2, ?s2)) = sbiLog s @ [\<lparr>log_date = today, log_delegator = delegator, log_sent = 1\<rparr>,
                         \<lparr>log_date = today, log_delegator = delegator, log_sent = 1\<rparr>]
      \<and> totalSent (snd (?d2, ?s2)) = totalSent s + 2"
    by (simp add: calledState_fields loggedState_fields ok SBI_CHUNK_def)
  with e show ?thesis unfolding run by simp
qed

text \<open>
  C7. For a contributor who is not excluded, with balance 2.4 and the payout unit
  1.0, when every transfer attempt succeeds (a dry run, or a key and a network
  that confirms every transfer), the executor makes exactly two calls of
  \<open>sendSBI\<close>, both successful, leaves the balance at 0.4, raises \<open>total_sent\<close>
  by 2.0 (from a value \<open>formatHIVE\<close> has written, or from none), appends exactly
  two log entries, and saves these balances and this log. What the run does is
  exactly this, in order: the transfer of the first call, confirmed (outside a
  dry run, which makes no transfer), the return of the first call, the same for
  the second call, and the two saves; so outside a dry run exactly two transfers
  are confirmed, both with the memo of the contributor.
\<close>

theorem payout_two_chunks:
  assumes "delegator \<noteq> ''_meta''"
    and "toLowerCase delegator \<notin> getExcludedDelegators cfg sbi"
    and "IS_DRY_RUN env \<or> (ACTIVE_KEY env \<noteq> [] \<and> (\<forall>n. net n))"
    and "formatHIVE (case sent of None \<Rightarrow> 0 | Some t \<Rightarrow> t) = (case sent of None \<Rightarrow> 0 | Some t \<Rightarrow> t)"
  shows
    "(let r = processSBIPayouts env net cfg sbi today
                (Some [(delegator, \<lparr>balance = 24 / 10, total_sent = sent, last_updated = lu\<rparr>)]) lf;
          paid = \<lparr>balance = 4 / 10, total_sent = Some ((case sent of None \<Rightarrow> 0 | Some t \<Rightarrow> t) + 2),
                   last_updated = today\<rparr>;
          logged = loadJSON lf [] @ [\<lparr>log_date = today, log_delegator = delegator, log_sent = 1\<rparr>,
                                     \<lparr>log_date = today, log_delegator = delegator, log_sent = 1\<rparr>];
          transfer = (if IS_DRY_RUN env then []
                      else [Broadcast (''@'' @ HIVE_USER env @ '':@'' @ delegator) True])
      in fst r = [(delegator, paid)]
         \<and> sendCalls (effects (snd r)) = [(delegator, True), (delegator, True)]
         \<and> effects (snd r)
             = transfer @ [SendSBI delegator True] @ transfer @ [SendSBI delegator True]
                 @ [SaveBalances [(delegator, paid)], SaveLog logged]
         \<and> confirmedMemos (effects (snd r))
             = (if IS_DRY_RUN env then []
                else [''@'' @ HIVE_USER env @ '':@'' @ delegator, ''@'' @ HIVE_USER env @ '':@'' @ delegator])
         \<and> sbiLog (snd r) = logged
         \<and> totalSent (snd r) = 2
         \<and> drop (length (effects (snd r)) - 2) (effects (snd r))
             = [SaveBalances [(delegator, paid)], SaveLog logged])"
proof -
  let ?X = "getExcludedDelegators cfg sbi"
  let ?d0 = "\<lparr>balance = 12 / 5, total_sent = sent, last_updated = lu\<rparr>"
  let ?s0 = "startState (loadJSON lf [])"
  let ?p = "payWhile env net today delegator ?d0 ?s0"
  note two = payWhile_two_chunks [OF assms(3,4), of today delegator lu ?s0]
  have entries: "payEntries env net ?X today [(delegator, ?d0)] ?s0 = ([(delegator, fst ?p)], snd ?p)"
    using assms(1,2) by (simp add: Let_def)
  have run: "processSBIPayouts env net cfg sbi today (Some [(delegator, ?d0)]) lf
      = ([(delegator, fst ?p)], (snd ?p)\<lparr>effects := effects (snd ?p) @ [SaveBalances [(delegator, fst ?p)], SaveLog (sbiLog (snd ?p))]\<rparr>)"
    using entries by (simp add: processSBIPayouts_def Let_def startState_def loadJSON_def)
  show ?thesis
    using two
    by (simp add: run Let_def sendCalls_append confirmedMemos_append startState_def memoOf_def)
qed

lemmas evalPayout = processSBIPayouts_def getExcludedDelegators_def payWhile.simps sendSBI_def
  SBI_CHUNK_def formatHIVE_def toFixed_def toLowerCase_def toLowerCaseChar_def trim_def
  isWhiteSpace_def loadJSON_def liveEnv_def Let_def numeral_3_eq_3

theorem payout_two_chunks_witness:
  "fst (processSBIPayouts liveEnv (\<lambda>n. True) (Some [''Bob'']) (Some '' carol ,'') ''2024-05-01''
          (Some [(''alice'', \<lparr>balance = 24 / 10, total_sent = Some 3, last_updated = ''2024-04-30''\<rparr>)]) (Some []))
     = [(''alice'', \<lparr>balance = 4 / 10, total_sent = Some 5, last_updated = ''2024-05-01''\<rparr>)]
   \<and> sendCalls (effects (snd (processSBIPayouts liveEnv (\<lambda>n. True) (Some [''Bob'']) (Some '' carol ,'') ''2024-05-01''
          (Some [(''alice'', \<lparr>balance = 24 / 10, total_sent = Some 3, last_updated = ''2024-04-30''\<rparr>)]) (Some []))))
     = [(''alice'', True), (''alice'', True)]
   \<and> sbiLog (snd (processSBIPayouts liveEnv (\<lambda>n. True) (Some [''Bob'']) (Some '' carol ,'') ''2024-05-01''
          (Some [(''alice'', \<lparr>balance = 24 / 10, total_sent = Some 3, last_updated = ''2024-04-30''\<rparr>)]) (Some [])))
     = [\<lparr>log_date = ''2024-05-01'', log_delegator = ''alice'', log_sent = 1\<rparr>,
        \<lparr>log_date = ''2024-05-01'', log_delegator = ''alice'', log_sent = 1\<rparr>]
   \<and> effects (snd (processSBIPayouts liveEnv (\<lambda>n. True) (Some [''Bob'']) (Some '' carol ,'') ''2024-05-01''
          (Some [(''alice'', \<lparr>balance = 24 / 10, total_sent = Some 3, last_updated = ''2024-04-30''\<rparr>)]) (Some [])))
     = [Broadcast ''@bayanihive:@alice'' True, SendSBI ''alice'' True,
        Broadcast ''@bayanihive:@alice'' True, SendSBI ''alice'' True,
        SaveBalances [(''alice'', \<lparr>balance = 4 / 10, total_sent = Some 5, last_updated = ''2024-05-01''\<rparr>)],
        SaveLog [\<lparr>log_date = ''2024-05-01'', log_delegator = ''alice'', log_sent = 1\<rparr>,
                 \<lparr>log_date = ''2024-05-01'', log_delegator = ''alice'', log_sent = 1\<rparr>]]
   \<and> confirmedMemos (effects (snd (processSBIPayouts liveEnv (\<lambda>n. True) (Some [''Bob'']) (Some '' carol ,'') ''2024-05-01''
          (Some [(''alice'', \<lparr>balance = 24 / 10, total_sent = Some 3, last_updated = ''2024-04-30''\<rparr>)]) (Some []))))
     = [''@bayanihive:@alice'', ''@bayanihive:@alice'']"
proof -
  have h1: "''alice'' \<noteq> ''_meta''" by simp
  have h2: "toLowerCase ''alice'' \<notin> getExcludedDelegators (Some [''Bob'']) (Some '' carol ,'')"
    by (simp add: getExcludedDelegators_def toLowerCase_def toLowerCaseChar_def trim_def isWhiteSpace_def)
  have h3: "IS_DRY_RUN liveEnv \<or> (ACTIVE_KEY liveEnv \<noteq> [] \<and> (\<forall>n. (\<lambda>n. True) n))"
    by (simp add: liveEnv_def)
  have h4: "formatHIVE (case Some 3 of None \<Rightarrow> 0 | Some t \<Rightarrow> t) = (case Some 3 of None \<Rightarrow> 0 | Some t \<Rightarrow> t)"
    by (simp add: formatHIVE_def toFixed_def)
  show ?thesis
    using payout_two_chunks [OF h1 h2 h3 h4, of "''2024-05-01''" "''2024-04-30''" "Some []"]
    by (simp add: Let_def loadJSON_def liveEnv_def)
qed



text \<open>
  C10. The exclusion set is the lowercased union of the \<open>excluded_from_sbi\<close>
  list and the trimmed, non-blank parts of the comma-separated SBI_EXCLUDE. For
  a contributor (not the key \<open>_meta\<close>) whose balance reaches a chunk, the executor
  makes no call of \<open>sendSBI\<close> if and only if the lowercased id is in that set; so
  ids that differ only in letter case are excluded alike.
\<close>

theorem exclusion_case_insensitive:
  "getExcludedDelegators cfg sbi
     = toLowerCase ` (set (case cfg of Some xs \<Rightarrow> xs | None \<Rightarrow> [])
                      \<union> set (filter (\<lambda>p. p \<noteq> []) (map trim (splitComma (case sbi of Some v \<Rightarrow> v | None \<Rightarrow> [])))))
   \<and> ((delegator, data) \<in> set bs \<and> delegator \<noteq> ''_meta'' \<and> SBI_CHUNK \<le> balance data \<longrightarrow>
        (delegator \<notin> set (map fst (sendCalls (effects (snd (processSBIPayouts env net cfg sbi today (Some bs) lf)))))
           \<longleftrightarrow> toLowerCase delegator \<in> getExcludedDelegators cfg sbi))
   \<and> (toLowerCase delegator = toLowerCase other \<longrightarrow>
        (toLowerCase delegator \<in> getExcludedDelegators cfg sbi
           \<longleftrightarrow> toLowerCase other \<in> getExcludedDelegators cfg sbi))"
proof -
  let ?X = "getExcludedDelegators cfg sbi"
  let ?r = "processSBIPayouts env net cfg sbi today (Some bs) lf"
  have c1: "?X = toLowerCase ` (set (case cfg of Some xs \<Rightarrow> xs | None \<Rightarrow> [])
                      \<union> set (filter (\<lambda>p. p \<noteq> []) (map trim (splitComma (case sbi of Some v \<Rightarrow> v | None \<Rightarrow> [])))))"
    by (simp add: getExcludedDelegators_def Let_def image_Un)
  from processSBIPayouts_frame [of env net cfg sbi today "Some bs" lf] obtain E new where
    f: "effects (snd ?r) = E @ [SaveBalances (fst ?r), SaveLog (loadJSON lf [] @ new)]"
      "entryFrame env ?X (loadJSON (Some bs) []) E new"
    by blast
  have calls: "sendCalls (effects (snd ?r)) = sendCalls E"
    by (simp add: f(1) sendCalls_append)
  have frame: "entryFrame env ?X bs E new" using f(2) by (simp add: loadJSON_def)
  have c2: "(delegator, data) \<in> set bs \<and> delegator \<noteq> ''_meta'' \<and> SBI_CHUNK \<le> balance data \<longrightarrow>
        (delegator \<notin> set (map fst (sendCalls (effects (snd ?r)))) \<longleftrightarrow> toLowerCase delegator \<in> ?X)"
  proof (intro impI iffI)
    assume a: "(delegator, data) \<in> set bs \<and> delegator \<noteq> ''_meta'' \<and> SBI_CHUNK \<le> balance data"
      and n: "delegator \<notin> set (map fst (sendCalls (effects (snd ?r))))"
    show "toLowerCase delegator \<in> ?X"
    proof (rule ccontr)
      assume "toLowerCase delegator \<notin> ?X"
      with a frame have "delegator \<in> set (map fst (sendCalls E))"
        unfolding entryFrame_def by blast
      with n calls show False by simp
    qed
  next
    assume "toLowerCase delegator \<in> ?X"
    with frame show "delegator \<notin> set (map fst (sendCalls (effects (snd ?r))))"
      unfolding calls entryFrame_def by blast
  qed
  have c3: "toLowerCase delegator = toLowerCase other \<longrightarrow>
        (toLowerCase delegator \<in> ?X \<longleftrightarrow> toLowerCase other \<in> ?X)"
    by simp
  from c1 c2 c3 show ?thesis by (intro conjI)
qed

theorem exclusion_case_insensitive_witness:
  "getExcludedDelegators (Some [''Alice'']) (Some '' BOB , ,carol'') = {''alice'', ''bob'', ''carol''}
   \<and> sendCalls (effects (snd (processSBIPayouts liveEnv (\<lambda>n. True) (Some [''Alice'']) (Some '' BOB , ,carol'')
        ''2024-05-01''
        (Some [(''ALICE'', \<lparr>balance = 3, total_sent = Some 0, last_updated = ''2024-04-30''\<rparr>),
               (''bob'', \<lparr>balance = 2, total_sent = Some 0, last_updated = ''2024-04-30''\<rparr>),
               (''dave'', \<lparr>balance = 1, total_sent = Some 0, last_updated = ''2024-04-30''\<rparr>)])
        (Some [])))) = [(''dave'', True)]
   \<and> ''ALICE'' \<notin> set (map fst (sendCalls (effects (snd (processSBIPayouts liveEnv (\<lambda>n. True) (Some [''Alice''])
        (Some '' BOB , ,carol'') ''2024-05-01''
        (Some [(''ALICE'', \<lparr>balance = 3, total_sent = Some 0, last_updated = ''2024-04-30''\<rparr>),
               (''bob'', \<lparr>balance = 2, total_sent = Some 0, last_updated = ''2024-04-30''\<rparr>),
               (''dave'', \<lparr>balance = 1, total_sent = Some 0, last_updated = ''2024-04-30''\<rparr>)])
        (Some []))))))"
proof -
  have x: "getExcludedDelegators (Some [''Alice'']) (Some '' BOB , ,carol'') = {''alice'', ''bob'', ''carol''}"
    by (auto simp: getExcludedDelegators_def toLowerCase_def toLowerCaseChar_def trim_def isWhiteSpace_def)
  have m: "(''ALICE'', \<lparr>balance = 3, total_sent = Some 0, last_updated = ''2024-04-30''\<rparr>)
      \<in> set [(''ALICE'', \<lparr>balance = 3, total_sent = Some 0, last_updated = ''2024-04-30''\<rparr>),
               (''bob'', \<lparr>balance = 2, total_sent = Some 0, last_updated = ''2024-04-30''\<rparr>),
               (''dave'', \<lparr>balance = 1, total_sent = Some 0, last_updated = ''2024-04-30''\<rparr>)]
      \<and> ''ALICE'' \<noteq> ''_meta''
      \<and> SBI_CHUNK \<le> balance \<lparr>balance = 3, total_sent = Some 0, last_updated = ''2024-04-30''\<rparr>"
    by (simp add: SBI_CHUNK_def)
  have l: "toLowerCase ''ALICE'' \<in> getExcludedDelegators (Some [''Alice'']) (Some '' BOB , ,carol'')"
    unfolding x by (simp add: toLowerCase_def toLowerCaseChar_def)
  have c: "sendCalls (effects (snd (processSBIPayouts liveEnv (\<lambda>n. True) (Some [''Alice'']) (Some '' BOB , ,carol'')
        ''2024-05-01''
        (Some [(''ALICE'', \<lparr>balance = 3, total_sent = Some 0, last_updated = ''2024-04-30''\<rparr>),
               (''bob'', \<lparr>balance = 2, total_sent = Some 0, last_updated = ''2024-04-30''\<rparr>),
               (''dave'', \<lparr>balance = 1, total_sent = Some 0, last_updated = ''2024-04-30''\<rparr>)])
        (Some [])))) = [(''dave'', True)]"
    by (simp add: evalPayout)
  from exclusion_case_insensitive [of "Some [''Alice'']" "Some '' BOB , ,carol''" "''ALICE''"
      "\<lparr>balance = 3, total_sent = Some 0, last_updated = ''2024-04-30''\<rparr>"
      "[(''ALICE'', \<lparr>balance = 3, total_sent = Some 0, last_updated = ''2024-04-30''\<rparr>),
        (''bob'', \<lparr>balance = 2, total_sent = Some 0, last_updated = ''2024-04-30''\<rparr>),
        (''dave'', \<lparr>balance = 1, total_sent = Some 0, last_updated = ''2024-04-30''\<rparr>)]"
      liveEnv "\<lambda>n. True" "''2024-05-01''" "Some []"] m l
  have "''ALICE'' \<notin> set (map fst (sendCalls (effects (snd (processSBIPayouts liveEnv (\<lambda>n. True) (Some [''Alice''])
        (Some '' BOB , ,carol'') ''2024-05-01''
        (Some [(''ALICE'', \<lparr>balance = 3, total_sent = Some 0, last_updated = ''2024-04-30''\<rparr>),
               (''bob'', \<lparr>balance = 2, total_sent = Some 0, last_updated = ''2024-04-30''\<rparr>),
               (''dave'', \<lparr>balance = 1, total_sent = Some 0, last_updated = ''2024-04-30''\<rparr>)])
        (Some []))))))"
    by blast
  with x c show ?thesis by (intro conjI)
qed

lemma perSend_Nil: "perSend f [] [] = []"
  by (simp add: perSend_def)

lemma perSend_Cons: "perSend f ((d, data) # bs) (k # ks) = replicate k (f d) @ perSend f bs ks"
  by (simp add: perSend_def)

lemma paidTimes_Nil: "paidTimes today [] [] = []"
  by (simp add: paidTimes_def)

lemma paidTimes_Cons:
  "paidTimes today ((d, data) # bs) (k # ks) = (d, (paidEntry today ^^ k) data) # paidTimes today bs ks"
  by (simp add: paidTimes_def)

lemma paidTimes_nth:
  assumes "i < length ks" and "length ks = length bs"
  shows "paidTimes today bs ks ! i = (fst (bs ! i), (paidEntry today ^^ (ks ! i)) (snd (bs ! i)))"
  using assms by (simp add: paidTimes_def)

lemma map_log_delegator_perSend:
  "length ks = length bs \<Longrightarrow>
     map log_delegator (perSend (\<lambda>d. \<lparr>log_date = today, log_delegator = d, log_sent = c\<rparr>) bs ks)
       = map fst (perSend (\<lambda>d. (d, True)) bs ks)"
proof (induction bs arbitrary: ks)
  case Nil
  then show ?case by (simp add: perSend_Nil)
next
  case (Cons entry rest)
  obtain d data where entry: "entry = (d, data)" by (cases entry)
  from Cons.prems obtain k ks' where ks: "ks = k # ks'" and "length ks' = length rest"
    by (cases ks) simp_all
  then show ?case using Cons.IH [of ks'] by (simp add: entry perSend_Cons)
qed

lemma broadcastLoop_confirmed:
  "\<exists>E. effects (snd (broadcastLoop net memo k s)) = effects s @ E
       \<and> confirmedMemos E = (if fst (broadcastLoop net memo k s) then [memo] else [])"
proof (induction k arbitrary: s)
  case 0
  then show ?case by simp
next
  case (Suc k)
  let ?s1 = "s\<lparr>broadcasts := Suc (broadcasts s), effects := effects s @ [Broadcast memo (net (broadcasts s))]\<rparr>"
  let ?s2 = "if 0 < k then setNextNode ?s1 else ?s1"
  show ?case
  proof (cases "net (broadcasts s)")
    case True
    then have "effects (snd (broadcastLoop net memo (Suc k) s)) = effects s @ [Broadcast memo True]
        \<and> confirmedMemos [Broadcast memo True] = (if fst (broadcastLoop net memo (Suc k) s) then [memo] else [])"
      by (simp add: Let_def)
    then show ?thesis by (rule exI)
  next
    case False
    from Suc.IH [of ?s2] obtain E where
      E: "effects (snd (broadcastLoop net memo k ?s2)) = effects ?s2 @ E"
        "confirmedMemos E = (if fst (broadcastLoop net memo k ?s2) then [memo] else [])"
      by blast
    have unfold: "broadcastLoop net memo (Suc k) s = broadcastLoop net memo k ?s2"
      using False by (simp add: Let_def)
    have s2: "effects ?s2 = effects s @ [Broadcast memo False]"
      using False by (simp add: setNextNode_def)
    have "effects (snd (broadcastLoop net memo (Suc k) s)) = effects s @ (Broadcast memo False # E)"
      unfolding unfold E(1) s2 by simp
    moreover have "confirmedMemos (Broadcast memo False # E)
        = (if fst (broadcastLoop net memo (Suc k) s) then [memo] else [])"
      unfolding unfold using E(2) by simp
    ultimately have "effects (snd (broadcastLoop net memo (Suc k) s)) = effects s @ (Broadcast memo False # E)
        \<and> confirmedMemos (Broadcast memo False # E)
            = (if fst (broadcastLoop net memo (Suc k) s) then [memo] else [])"
      by (intro conjI)
    then show ?thesis by (rule exI)
  qed
qed

lemma sendSBI_confirmed:
  "\<exists>E. effects (snd (sendSBI env net delegator s)) = effects s @ E
       \<and> (IS_DRY_RUN env \<longrightarrow> E = [])
       \<and> (\<not> IS_DRY_RUN env \<longrightarrow>
            confirmedMemos E = (if fst (sendSBI env net delegator s) then [memoOf env delegator] else []))"
proof (cases "IS_DRY_RUN env \<or> ACTIVE_KEY env = []")
  case True
  then have "effects (snd (sendSBI env net delegator s)) = effects s @ []
       \<and> (IS_DRY_RUN env \<longrightarrow> ([] :: effect list) = [])
       \<and> (\<not> IS_DRY_RUN env \<longrightarrow>
            confirmedMemos [] = (if fst (sendSBI env net delegator s) then [memoOf env delegator] else []))"
    by (auto simp: sendSBI_def)
  then show ?thesis by (rule exI)
next
  case False
  then have run: "sendSBI env net delegator s = broadcastLoop net (memoOf env delegator) 3 s"
    by (simp add: sendSBI_def memoOf_def Let_def)
  from broadcastLoop_confirmed [of net "memoOf env delegator" 3 s] obtain E where
    "effects (snd (broadcastLoop net (memoOf env delegator) 3 s)) = effects s @ E"
    "confirmedMemos E = (if fst (broadcastLoop net (memoOf env delegator) 3 s) then [memoOf env delegator] else [])"
    by blast
  with False have "effects (snd (sendSBI env net delegator s)) = effects s @ E
       \<and> (IS_DRY_RUN env \<longrightarrow> E = [])
       \<and> (\<not> IS_DRY_RUN env \<longrightarrow>
            confirmedMemos E = (if fst (sendSBI env net delegator s) then [memoOf env delegator] else []))"
    unfolding run by simp
  then show ?thesis by (rule exI)
qed

lemma calledState_confirmed:
  "\<exists>E. effects (calledState env net delegator s) = effects s @ E
       \<and> sendCalls E = [(delegator, fst (sendSBI env net delegator s))]
       \<and> (IS_DRY_RUN env \<longrightarrow> broadcastMemos E = [])
       \<and> (\<not> IS_DRY_RUN env \<longrightarrow>
            confirmedMemos E = (if fst (sendSBI env net delegator s) then [memoOf env delegator] else []))"
proof -
  from sendSBI_confirmed [of env net delegator s] obtain E where
    E: "effects (snd (sendSBI env net delegator s)) = effects s @ E"
      "IS_DRY_RUN env \<longrightarrow> E = []"
      "\<not> IS_DRY_RUN env \<longrightarrow>
         confirmedMemos E = (if fst (sendSBI env net delegator s) then [memoOf env delegator] else [])"
    by blast
  from sendSBI_frame [of env net delegator s] obtain E' where
    E': "effects (snd (sendSBI env net delegator s)) = effects s @ E'" "sendCalls E' = []"
    by blast
  from E(1) E'(1) have "E' = E" by simp
  with E'(2) have calls: "sendCalls E = []" by simp
  let ?E = "E @ [SendSBI delegator (fst (sendSBI env net delegator s))]"
  have g1: "effects (calledState env net delegator s) = effects s @ ?E"
    by (simp add: calledState_def E(1))
  have g2: "sendCalls ?E = [(delegator, fst (sendSBI env net delegator s))]"
    by (simp add: sendCalls_append calls)
  have g3: "IS_DRY_RUN env \<longrightarrow> broadcastMemos ?E = []"
    using E(2) by (simp add: broadcastMemos_append)
  have g4: "\<not> IS_DRY_RUN env \<longrightarrow>
      confirmedMemos ?E = (if fst (sendSBI env net delegator s) then [memoOf env delegator] else [])"
    using E(3) by (simp add: confirmedMemos_append)
  from g1 g2 g3 g4 have "effects (calledState env net delegator s) = effects s @ ?E
       \<and> sendCalls ?E = [(delegator, fst (sendSBI env net delegator s))]
       \<and> (IS_DRY_RUN env \<longrightarrow> broadcastMemos ?E = [])
       \<and> (\<not> IS_DRY_RUN env \<longrightarrow>
            confirmedMemos ?E = (if fst (sendSBI env net delegator s) then [memoOf env delegator] else []))"
    by (intro conjI)
  then show ?thesis by (rule exI)
qed

lemma payWhile_account:
  "\<exists>E k. effects (snd (payWhile env net today delegator data s)) = effects s @ E
       \<and> fst (payWhile env net today delegator data s) = (paidEntry today ^^ k) data
       \<and> sbiLog (snd (payWhile env net today delegator data s))
           = sbiLog s @ replicate k \<lparr>log_date = today, log_delegator = delegator, log_sent = SBI_CHUNK\<rparr>
       \<and> filter snd (sendCalls E) = replicate k (delegator, True)
       \<and> (IS_DRY_RUN env \<longrightarrow> broadcastMemos E = [])
       \<and> (\<not> IS_DRY_RUN env \<longrightarrow> confirmedMemos E = replicate k (memoOf env delegator))"
proof (induction env net today delegator data s rule: payWhile_induct)
  case (1 env net today delegator data s)
  let ?c = "calledState env net delegator s"
  let ?entry = "\<lparr>log_date = today, log_delegator = delegator, log_sent = SBI_CHUNK\<rparr>"
  let ?p = "payWhile env net today delegator data s"
  from calledState_confirmed [of env net delegator s] obtain E0 where
    E0: "effects ?c = effects s @ E0"
      "sendCalls E0 = [(delegator, fst (sendSBI env net delegator s))]"
      "IS_DRY_RUN env \<longrightarrow> broadcastMemos E0 = []"
      "\<not> IS_DRY_RUN env \<longrightarrow>
         confirmedMemos E0 = (if fst (sendSBI env net delegator s) then [memoOf env delegator] else [])"
    by blast
  show ?case
  proof (cases "SBI_CHUNK \<le> balance data")
    case False
    then have run: "?p = (data, s)"
      by (subst payWhile_unfold) simp
    have "effects (snd ?p) = effects s @ []
       \<and> fst ?p = (paidEntry today ^^ 0) data
       \<and> sbiLog (snd ?p) = sbiLog s @ replicate 0 ?entry
       \<and> filter snd (sendCalls []) = replicate 0 (delegator, True)
       \<and> (IS_DRY_RUN env \<longrightarrow> broadcastMemos [] = [])
       \<and> (\<not> IS_DRY_RUN env \<longrightarrow> confirmedMemos [] = replicate 0 (memoOf env delegator))"
      by (simp add: run)
    then show ?thesis by (intro exI)
  next
    case chunk: True
    show ?thesis
    proof (cases "fst (sendSBI env net delegator s)")
      case False
      then have run: "?p = (data, ?c)"
        using chunk by (subst payWhile_unfold) simp
      have "effects (snd ?p) = effects s @ E0
       \<and> fst ?p = (paidEntry today ^^ 0) data
       \<and> sbiLog (snd ?p) = sbiLog s @ replicate 0 ?entry
       \<and> filter snd (sendCalls E0) = replicate 0 (delegator, True)
       \<and> (IS_DRY_RUN env \<longrightarrow> broadcastMemos E0 = [])
       \<and> (\<not> IS_DRY_RUN env \<longrightarrow> confirmedMemos E0 = replicate 0 (memoOf env delegator))"
        using E0 False by (simp add: run calledState_fields)
      then show ?thesis by (intro exI)
    next
      case True
      let ?l = "loggedState today delegator ?c"
      let ?q = "payWhile env net today delegator (paidEntry today data) ?l"
      have unfold: "?p = ?q"
        using chunk True by (subst payWhile_unfold) simp
      from "1" [OF chunk True] obtain E1 k1 where
        E1: "effects (snd ?q) = effects ?l @ E1"
          "fst ?q = (paidEntry today ^^ k1) (paidEntry today data)"
          "sbiLog (snd ?q) = sbiLog ?l @ replicate k1 ?entry"
          "filter snd (sendCalls E1) = replicate k1 (delegator, True)"
          "IS_DRY_RUN env \<longrightarrow> broadcastMemos E1 = []"
          "\<not> IS_DRY_RUN env \<longrightarrow> confirmedMemos E1 = replicate k1 (memoOf env delegator)"
        by blast
      have l: "effects ?l = effects s @ E0" "sbiLog ?l = sbiLog s @ [?entry]"
        by (simp_all add: loggedState_fields calledState_fields E0(1))
      have c0: "sendCalls E0 = [(delegator, True)]" using E0(2) True by simp
      have g1: "effects (snd ?p) = effects s @ (E0 @ E1)"
        by (simp only: unfold E1(1) l(1) append_assoc)
      have g2: "fst ?p = (paidEntry today ^^ Suc k1) data"
        by (simp only: unfold E1(2)) (simp add: funpow_swap1)
      have g3: "sbiLog (snd ?p) = sbiLog s @ replicate (Suc k1) ?entry"
        by (simp only: unfold E1(3) l(2)) simp
      have g4: "filter snd (sendCalls (E0 @ E1)) = replicate (Suc k1) (delegator, True)"
        using E1(4) by (simp add: sendCalls_append c0)
      have g5: "IS_DRY_RUN env \<longrightarrow> broadcastMemos (E0 @ E1) = []"
        using E0(3) E1(5) by (simp add: broadcastMemos_append)
      have g6: "\<not> IS_DRY_RUN env \<longrightarrow> confirmedMemos (E0 @ E1) = replicate (Suc k1) (memoOf env delegator)"
        using E0(4) E1(6) True by (simp add: confirmedMemos_append)
      from g1 g2 g3 g4 g5 g6
      have "effects (snd ?p) = effects s @ (E0 @ E1)
       \<and> fst ?p = (paidEntry today ^^ Suc k1) data
       \<and> sbiLog (snd ?p) = sbiLog s @ replicate (Suc k1) ?entry
       \<and> filter snd (sendCalls (E0 @ E1)) = replicate (Suc k1) (delegator, True)
       \<and> (IS_DRY_RUN env \<longrightarrow> broadcastMemos (E0 @ E1) = [])
       \<and> (\<not> IS_DRY_RUN env \<longrightarrow> confirmedMemos (E0 @ E1) = replicate (Suc k1) (memoOf env delegator))"
        by (intro conjI)
      then show ?thesis by (intro exI)
    qed
  qed
qed

lemma payEntries_account:
  "\<exists>E ks. effects (snd (payEntries env net X today bs s)) = effects s @ E
       \<and> length ks = length bs
       \<and> fst (payEntries env net X today bs s) = paidTimes today bs ks
       \<and> sbiLog (snd (payEntries env net X today bs s))
           = sbiLog s @ perSend (\<lambda>d. \<lparr>log_date = today, log_delegator = d, log_sent = SBI_CHUNK\<rparr>) bs ks
       \<and> filter snd (sendCalls E) = perSend (\<lambda>d. (d, True)) bs ks
       \<and> (IS_DRY_RUN env \<longrightarrow> broadcastMemos E = [])
       \<and> (\<not> IS_DRY_RUN env \<longrightarrow> confirmedMemos E = perSend (memoOf env) bs ks)"
proof (induction bs arbitrary: s)
  case Nil
  have "effects (snd (payEntries env net X today [] s)) = effects s @ []
       \<and> length ([] :: nat list) = length ([] :: balances)
       \<and> fst (payEntries env net X today [] s) = paidTimes today [] []
       \<and> sbiLog (snd (payEntries env net X today [] s))
           = sbiLog s @ perSend (\<lambda>d. \<lparr>log_date = today, log_delegator = d, log_sent = SBI_CHUNK\<rparr>) [] []
       \<and> filter snd (sendCalls []) = perSend (\<lambda>d. (d, True)) [] []
       \<and> (IS_DRY_RUN env \<longrightarrow> broadcastMemos [] = [])
       \<and> (\<not> IS_DRY_RUN env \<longrightarrow> confirmedMemos [] = perSend (memoOf env) [] [])"
    by (simp add: perSend_Nil paidTimes_Nil)
  then show ?case by (intro exI)
next
  case (Cons entry rest)
  obtain d data where entry: "entry = (d, data)" by (cases entry)
  let ?log = "\<lambda>d. \<lparr>log_date = today, log_delegator = d, log_sent = SBI_CHUNK\<rparr>"
  let ?r = "payEntries env net X today (entry # rest) s"
  show ?case
  proof (cases "d = ''_meta'' \<or> toLowerCase d \<in> X")
    case True
    let ?skip = "payEntries env net X today rest s"
    from Cons.IH [of s] obtain E ks where
      r: "effects (snd ?skip) = effects s @ E" "length ks = length rest"
        "fst ?skip = paidTimes today rest ks"
        "sbiLog (snd ?skip) = sbiLog s @ perSend ?log rest ks"
        "filter snd (sendCalls E) = perSend (\<lambda>d. (d, True)) rest ks"
        "IS_DRY_RUN env \<longrightarrow> broadcastMemos E = []"
        "\<not> IS_DRY_RUN env \<longrightarrow> confirmedMemos E = perSend (memoOf env) rest ks"
      by blast
    have run: "payEntries env net X today ((d, data) # rest) s = ((d, data) # fst ?skip, snd ?skip)"
      using True by (auto simp: Let_def)
    have g1: "effects (snd ?r) = effects s @ E" unfolding entry run by (simp add: r(1))
    have g2: "length (0 # ks) = length (entry # rest)" by (simp add: r(2))
    have g3: "fst ?r = paidTimes today (entry # rest) (0 # ks)"
      unfolding entry run by (simp add: r(3) paidTimes_Cons)
    have g4: "sbiLog (snd ?r) = sbiLog s @ perSend ?log (entry # rest) (0 # ks)"
      unfolding entry run by (simp add: r(4) perSend_Cons)
    have g5: "filter snd (sendCalls E) = perSend (\<lambda>d. (d, True)) (entry # rest) (0 # ks)"
      by (simp add: r(5) entry perSend_Cons)
    have g7: "\<not> IS_DRY_RUN env \<longrightarrow> confirmedMemos E = perSend (memoOf env) (entry # rest) (0 # ks)"
      using r(7) by (simp add: entry perSend_Cons)
    from g1 g2 g3 g4 g5 r(6) g7
    have "effects (snd ?r) = effects s @ E
       \<and> length (0 # ks) = length (entry # rest)
       \<and> fst ?r = paidTimes today (entry # rest) (0 # ks)
       \<and> sbiLog (snd ?r) = sbiLog s @ perSend ?log (entry # rest) (0 # ks)
       \<and> filter snd (sendCalls E) = perSend (\<lambda>d. (d, True)) (entry # rest) (0 # ks)
       \<and> (IS_DRY_RUN env \<longrightarrow> broadcastMemos E = [])
       \<and> (\<not> IS_DRY_RUN env \<longrightarrow> confirmedMemos E = perSend (memoOf env) (entry # rest) (0 # ks))"
      by (intro conjI)
    then show ?thesis by (intro exI)
  next
    case False
    let ?p = "payWhile env net today d data s"
    let ?next = "payEntries env net X today rest (snd ?p)"
    from payWhile_account [of env net today d data s] obtain E0 k where
      p: "effects (snd ?p) = effects s @ E0"
        "fst ?p = (paidEntry today ^^ k) data"
        "sbiLog (snd ?p) = sbiLog s @ replicate k (?log d)"
        "filter snd (sendCalls E0) = replicate k (d, True)"
        "IS_DRY_RUN env \<longrightarrow> broadcastMemos E0 = []"
        "\<not> IS_DRY_RUN env \<longrightarrow> confirmedMemos E0 = replicate k (memoOf env d)"
      by blast
    from Cons.IH [of "snd ?p"] obtain E1 ks where
      r: "effects (snd ?next) = effects (snd ?p) @ E1" "length ks = length rest"
        "fst ?next = paidTimes today rest ks"
        "sbiLog (snd ?next) = sbiLog (snd ?p) @ perSend ?log rest ks"
        "filter snd (sendCalls E1) = perSend (\<lambda>d. (d, True)) rest ks"
        "IS_DRY_RUN env \<longrightarrow> broadcastMemos E1 = []"
        "\<not> IS_DRY_RUN env \<longrightarrow> confirmedMemos E1 = perSend (memoOf env) rest ks"
      by blast
    have run: "payEntries env net X today ((d, data) # rest) s = ((d, fst ?p) # fst ?next, snd ?next)"
      using False by (simp add: Let_def)
    have g1: "effects (snd ?r) = effects s @ (E0 @ E1)" unfolding entry run by (simp add: r(1) p(1))
    have g2: "length (k # ks) = length (entry # rest)" by (simp add: r(2))
    have g3: "fst ?r = paidTimes today (entry # rest) (k # ks)"
      unfolding entry run by (simp add: r(3) p(2) paidTimes_Cons)
    have g4: "sbiLog (snd ?r) = sbiLog s @ perSend ?log (entry # rest) (k # ks)"
      unfolding entry run by (simp add: r(4) p(3) perSend_Cons)
    have g5: "filter snd (sendCalls (E0 @ E1)) = perSend (\<lambda>d. (d, True)) (entry # rest) (k # ks)"
      by (simp add: sendCalls_append r(5) p(4) entry perSend_Cons)
    have g6: "IS_DRY_RUN env \<longrightarrow> broadcastMemos (E0 @ E1) = []"
      using r(6) p(5) by (simp add: broadcastMemos_append)
    have g7: "\<not> IS_DRY_RUN env \<longrightarrow> confirmedMemos (E0 @ E1) = perSend (memoOf env) (entry # rest) (k # ks)"
      using r(7) p(6) by (simp add: confirmedMemos_append entry perSend_Cons)
    from g1 g2 g3 g4 g5 g6 g7
    have "effects (snd ?r) = effects s @ (E0 @ E1)
       \<and> length (k # ks) = length (entry # rest)
       \<and> fst ?r = paidTimes today (entry # rest) (k # ks)
       \<and> sbiLog (snd ?r) = sbiLog s @ perSend ?log (entry # rest) (k # ks)
       \<and> filter snd (sendCalls (E0 @ E1)) = perSend (\<lambda>d. (d, True)) (entry # rest) (k # ks)
       \<and> (IS_DRY_RUN env \<longrightarrow> broadcastMemos (E0 @ E1) = [])
       \<and> (\<not> IS_DRY_RUN env \<longrightarrow> confirmedMemos (E0 @ E1) = perSend (memoOf env) (entry # rest) (k # ks))"
      by (intro conjI)
    then show ?thesis by (intro exI)
  qed
qed

lemma formatHIVE_shift:
  assumes "formatHIVE x = x"
  shows "formatHIVE (x + of_int n) = x + of_int n"
proof -
  from assms obtain k :: int where k: "x = of_int k / 1000" using formatHIVE_fixed by blast
  have "x + of_int n = of_int (k + 1000 * n) / 1000" by (simp add: k)
  then show ?thesis by (simp only: formatHIVE_def toFixed_of_int)
qed

lemma paidEntry_funpow_balance:
  assumes "formatHIVE (balance data) = balance data"
  shows "balance ((paidEntry today ^^ k) data) = balance data - of_nat k * SBI_CHUNK"
proof (induction k)
  case 0
  then show ?case by simp
next
  case (Suc k)
  have eq: "balance ((paidEntry today ^^ k) data) - SBI_CHUNK = balance data + of_int (- int (Suc k))"
    by (simp add: Suc.IH SBI_CHUNK_def)
  have "balance ((paidEntry today ^^ Suc k) data)
      = formatHIVE (balance ((paidEntry today ^^ k) data) - SBI_CHUNK)"
    by (simp add: paidEntry_def)
  also have "\<dots> = formatHIVE (balance data + of_int (- int (Suc k)))"
    by (simp only: eq)
  also have "\<dots> = balance data + of_int (- int (Suc k))"
    using assms by (rule formatHIVE_shift)
  finally show ?case by (simp add: SBI_CHUNK_def)
qed

lemma paidEntry_funpow_total_sent:
  assumes "formatHIVE (sentSoFar data) = sentSoFar data"
  shows "sentSoFar ((paidEntry today ^^ k) data) = sentSoFar data + of_nat k * SBI_CHUNK"
proof (induction k)
  case 0
  then show ?case by simp
next
  case (Suc k)
  have eq: "sentSoFar ((paidEntry today ^^ k) data) + SBI_CHUNK = sentSoFar data + of_int (int (Suc k))"
    by (simp add: Suc.IH SBI_CHUNK_def)
  have "sentSoFar ((paidEntry today ^^ Suc k) data)
      = formatHIVE (sentSoFar ((paidEntry today ^^ k) data) + SBI_CHUNK)"
    by (simp add: paidEntry_def sentSoFar_def)
  also have "\<dots> = formatHIVE (sentSoFar data + of_int (int (Suc k)))"
    by (simp only: eq)
  also have "\<dots> = sentSoFar data + of_int (int (Suc k))"
    using assms by (rule formatHIVE_shift)
  finally show ?case by (simp add: SBI_CHUNK_def)
qed

text \<open>
  C1 (as amended). The effects of a run of the executor are the calls and
  transfers of the loop, with no save among them, followed by the save of the
  balances and the save of the log. So the decrements and log entries of the
  confirmed transfers are made durable once, at the end of the run, and not with
  each transfer: a process that stops anywhere before the saves leaves both
  files as they were, while the chain keeps the transfers confirmed so far (and
  one that stops between the two saves leaves the new balances beside the old
  log). A run that reaches its end saves balances and a log that account for the
  transfers it confirmed: there is a number of successful sends for each entry
  of the balances such that, in the order of the entries, the successful calls of
  \<open>sendSBI\<close> are that many for its delegator, the transfers confirmed on the
  chain are that many with its memo (outside a dry run; a dry run makes no
  transfer), the log entries appended are that many for it, and its entry has
  the three assignments made that many times: for a balance and a
  \<open>total_sent\<close> that \<open>formatHIVE\<close> has written, the balance is lower and
  \<open>total_sent\<close> is higher by that many chunks.
\<close>

theorem payout_saved_at_end:
  "\<exists>E new ks.
      payoutEffects env net cfg sbi today w
        = E @ [SaveBalances (fst (processSBIPayouts env net cfg sbi today (balances_file w) (log_file w))),
               SaveLog (loadJSON (log_file w) [] @ new)]
    \<and> filter isSave E = []
    \<and> map log_delegator new = map fst (filter snd (sendCalls E))
    \<and> length ks = length (loadJSON (balances_file w) [])
    \<and> filter snd (sendCalls E) = perSend (\<lambda>d. (d, True)) (loadJSON (balances_file w) []) ks
    \<and> (\<not> IS_DRY_RUN env \<longrightarrow>
         confirmedMemos E = perSend (\<lambda>d. ''@'' @ HIVE_USER env @ '':@'' @ d) (loadJSON (balances_file w) []) ks)
    \<and> (IS_DRY_RUN env \<longrightarrow> broadcastMemos E = [])
    \<and> new = perSend (\<lambda>d. \<lparr>log_date = today, log_delegator = d, log_sent = SBI_CHUNK\<rparr>)
              (loadJSON (balances_file w) []) ks
    \<and> fst (processSBIPayouts env net cfg sbi today (balances_file w) (log_file w))
        = paidTimes today (loadJSON (balances_file w) []) ks
    \<and> (\<forall>i < length ks.
          formatHIVE (balance (snd (loadJSON (balances_file w) [] ! i)))
            = balance (snd (loadJSON (balances_file w) [] ! i)) \<longrightarrow>
          balance (snd (fst (processSBIPayouts env net cfg sbi today (balances_file w) (log_file w)) ! i))
            = balance (snd (loadJSON (balances_file w) [] ! i)) - of_nat (ks ! i) * SBI_CHUNK)
    \<and> (\<forall>i < length ks.
          formatHIVE (sentSoFar (snd (loadJSON (balances_file w) [] ! i)))
            = sentSoFar (snd (loadJSON (balances_file w) [] ! i)) \<longrightarrow>
          sentSoFar (snd (fst (processSBIPayouts env net cfg sbi today (balances_file w) (log_file w)) ! i))
            = sentSoFar (snd (loadJSON (balances_file w) [] ! i)) + of_nat (ks ! i) * SBI_CHUNK)
    \<and> (\<forall>n \<le> length E.
          balances_file (payoutRunCrashed n env net cfg sbi today w) = balances_file w
        \<and> log_file (payoutRunCrashed n env net cfg sbi today w) = log_file w
        \<and> chain (payoutRunCrashed n env net cfg sbi today w) = chain w @ confirmedMemos (take n E))
    \<and> balances_file (payoutRunCrashed (Suc (length E)) env net cfg sbi today w)
        = Some (fst (processSBIPayouts env net cfg sbi today (balances_file w) (log_file w)))
    \<and> log_file (payoutRunCrashed (Suc (length E)) env net cfg sbi today w) = log_file w
    \<and> balances_file (payoutRun env net cfg sbi today w)
        = Some (fst (processSBIPayouts env net cfg sbi today (balances_file w) (log_file w)))
    \<and> log_file (payoutRun env net cfg sbi today w) = Some (loadJSON (log_file w) [] @ new)
    \<and> chain (payoutRun env net cfg sbi today w) = chain w @ confirmedMemos E"
proof -
  let ?r = "processSBIPayouts env net cfg sbi today (balances_file w) (log_file w)"
  let ?bs = "loadJSON (balances_file w) []"
  let ?X = "getExcludedDelegators cfg sbi"
  let ?s0 = "startState (loadJSON (log_file w) [])"
  let ?pe = "payEntries env net ?X today ?bs ?s0"
  let ?log = "\<lambda>d. \<lparr>log_date = today, log_delegator = d, log_sent = SBI_CHUNK\<rparr>"
  note p = processSBIPayouts_payEntries [of env net cfg sbi today "balances_file w" "log_file w"]
  from payEntries_account [of env net ?X today ?bs ?s0] obtain E ks where
    a: "effects (snd ?pe) = effects ?s0 @ E" "length ks = length ?bs"
      "fst ?pe = paidTimes today ?bs ks"
      "sbiLog (snd ?pe) = sbiLog ?s0 @ perSend ?log ?bs ks"
      "filter snd (sendCalls E) = perSend (\<lambda>d. (d, True)) ?bs ks"
      "IS_DRY_RUN env \<longrightarrow> broadcastMemos E = []"
      "\<not> IS_DRY_RUN env \<longrightarrow> confirmedMemos E = perSend (memoOf env) ?bs ks"
    by blast
  from payEntries_frame [of env net ?X today ?bs ?s0] obtain E' new' where
    f: "effects (snd ?pe) = effects ?s0 @ E'" "entryFrame env ?X ?bs E' new'"
    by blast
  from a(1) f(1) have "E' = E" by simp
  with f(2) have c2: "filter isSave E = []" by (simp add: entryFrame_def)
  let ?new = "perSend ?log ?bs ks"
  let ?tail = "[SaveBalances (fst ?r), SaveLog (loadJSON (log_file w) [] @ ?new)]"
  have e: "effects (snd ?pe) = E" and l: "sbiLog (snd ?pe) = loadJSON (log_file w) [] @ ?new"
    using a(1,4) by (simp_all add: startState_def)
  have fst_r: "fst ?r = paidTimes today ?bs ks" using p a(3) by simp
  have c1: "payoutEffects env net cfg sbi today w = E @ ?tail"
    using p e l by (simp add: payoutEffects_def)
  have c3: "map log_delegator ?new = map fst (filter snd (sendCalls E))"
    unfolding a(5) using a(2) by (rule map_log_delegator_perSend)
  have c6: "\<not> IS_DRY_RUN env \<longrightarrow>
      confirmedMemos E = perSend (\<lambda>d. ''@'' @ HIVE_USER env @ '':@'' @ d) ?bs ks"
  proof -
    have "memoOf env = (\<lambda>d. ''@'' @ HIVE_USER env @ '':@'' @ d)"
      by (rule ext) (simp add: memoOf_def)
    with a(7) show ?thesis by simp
  qed
  have c10: "\<forall>i < length ks.
      formatHIVE (balance (snd (?bs ! i))) = balance (snd (?bs ! i)) \<longrightarrow>
      balance (snd (fst ?r ! i)) = balance (snd (?bs ! i)) - of_nat (ks ! i) * SBI_CHUNK"
  proof (intro allI impI)
    fix i assume "i < length ks"
      and "formatHIVE (balance (snd (?bs ! i))) = balance (snd (?bs ! i))"
    then show "balance (snd (fst ?r ! i)) = balance (snd (?bs ! i)) - of_nat (ks ! i) * SBI_CHUNK"
      unfolding fst_r by (simp add: paidTimes_nth [OF _ a(2)] paidEntry_funpow_balance)
  qed
  have c11: "\<forall>i < length ks.
      formatHIVE (sentSoFar (snd (?bs ! i))) = sentSoFar (snd (?bs ! i)) \<longrightarrow>
      sentSoFar (snd (fst ?r ! i)) = sentSoFar (snd (?bs ! i)) + of_nat (ks ! i) * SBI_CHUNK"
  proof (intro allI impI)
    fix i assume "i < length ks"
      and "formatHIVE (sentSoFar (snd (?bs ! i))) = sentSoFar (snd (?bs ! i))"
    then show "sentSoFar (snd (fst ?r ! i)) = sentSoFar (snd (?bs ! i)) + of_nat (ks ! i) * SBI_CHUNK"
      unfolding fst_r by (simp add: paidTimes_nth [OF _ a(2)] paidEntry_funpow_total_sent)
  qed
  have c12: "\<forall>n \<le> length E.
          balances_file (payoutRunCrashed n env net cfg sbi today w) = balances_file w
        \<and> log_file (payoutRunCrashed n env net cfg sbi today w) = log_file w
        \<and> chain (payoutRunCrashed n env net cfg sbi today w) = chain w @ confirmedMemos (take n E)"
  proof (intro allI impI)
    fix n assume n: "n \<le> length E"
    have run: "payoutRunCrashed n env net cfg sbi today w = fold applyEffect (take n E) w"
      using n by (simp add: payoutRunCrashed_def c1)
    have "filter isSave (take n E) = []"
      using c2 by (metis append_take_drop_id filter_append append_is_Nil_conv)
    then have "balances_file (fold applyEffect (take n E) w) = balances_file w
        \<and> log_file (fold applyEffect (take n E) w) = log_file w"
      by (rule files_fold)
    then show "balances_file (payoutRunCrashed n env net cfg sbi today w) = balances_file w
        \<and> log_file (payoutRunCrashed n env net cfg sbi today w) = log_file w
        \<and> chain (payoutRunCrashed n env net cfg sbi today w) = chain w @ confirmedMemos (take n E)"
      by (simp add: run chain_fold)
  qed
  have between: "payoutRunCrashed (Suc (length E)) env net cfg sbi today w
      = applyEffect (SaveBalances (fst ?r)) (fold applyEffect E w)"
    by (simp add: payoutRunCrashed_def c1)
  have "log_file (fold applyEffect E w) = log_file w"
    using files_fold [OF c2] by simp
  then have b1: "balances_file (payoutRunCrashed (Suc (length E)) env net cfg sbi today w) = Some (fst ?r)"
    and b2: "log_file (payoutRunCrashed (Suc (length E)) env net cfg sbi today w) = log_file w"
    by (simp_all add: between)
  have full: "payoutRun env net cfg sbi today w = fold applyEffect ?tail (fold applyEffect E w)"
    by (simp add: payoutRun_def c1)
  have c13: "balances_file (payoutRun env net cfg sbi today w) = Some (fst ?r)"
    and c14: "log_file (payoutRun env net cfg sbi today w) = Some (loadJSON (log_file w) [] @ ?new)"
    and c15: "chain (payoutRun env net cfg sbi today w) = chain w @ confirmedMemos E"
    by (simp_all add: full chain_fold)
  from c1 c2 c3 a(2) a(5) c6 a(6) fst_r c10 c11 c12 b1 b2 c13 c14 c15
  have "payoutEffects env net cfg sbi today w = E @ ?tail
    \<and> filter isSave E = []
    \<and> map log_delegator ?new = map fst (filter snd (sendCalls E))
    \<and> length ks = length ?bs
    \<and> filter snd (sendCalls E) = perSend (\<lambda>d. (d, True)) ?bs ks
    \<and> (\<not> IS_DRY_RUN env \<longrightarrow>
         confirmedMemos E = perSend (\<lambda>d. ''@'' @ HIVE_USER env @ '':@'' @ d) ?bs ks)
    \<and> (IS_DRY_RUN env \<longrightarrow> broadcastMemos E = [])
    \<and> ?new = perSend ?log ?bs ks
    \<and> fst ?r = paidTimes today ?bs ks
    \<and> (\<forall>i < length ks.
          formatHIVE (balance (snd (?bs ! i))) = balance (snd (?bs ! i)) \<longrightarrow>
          balance (snd (fst ?r ! i)) = balance (snd (?bs ! i)) - of_nat (ks ! i) * SBI_CHUNK)
    \<and> (\<forall>i < length ks.
          formatHIVE (sentSoFar (snd (?bs ! i))) = sentSoFar (snd (?bs ! i)) \<longrightarrow>
          sentSoFar (snd (fst ?r ! i)) = sentSoFar (snd (?bs ! i)) + of_nat (ks ! i) * SBI_CHUNK)
    \<and> (\<forall>n \<le> length E.
          balances_file (payoutRunCrashed n env net cfg sbi today w) = balances_file w
        \<and> log_file (payoutRunCrashed n env net cfg sbi today w) = log_file w
        \<and> chain (payoutRunCrashed n env net cfg sbi today w) = chain w @ confirmedMemos (take n E))
    \<and> balances_file (payoutRunCrashed (Suc (length E)) env net cfg sbi today w) = Some (fst ?r)
    \<and> log_file (payoutRunCrashed (Suc (length E)) env net cfg sbi today w) = log_file w
    \<and> balances_file (payoutRun env net cfg sbi today w) = Some (fst ?r)
    \<and> log_file (payoutRun env net cfg sbi today w) = Some (loadJSON (log_file w) [] @ ?new)
    \<and> chain (payoutRun env net cfg sbi today w) = chain w @ confirmedMemos E"
    by (intro conjI refl)
  then show ?thesis by (intro exI)
qed

lemma crashWorld_effects:
  "payoutEffects liveEnv (\<lambda>n. True) None None ''2024-05-01'' crashWorld =
     [Broadcast ''@bayanihive:@alice'' True, SendSBI ''alice'' True,
      Broadcast ''@bayanihive:@alice'' True, SendSBI ''alice'' True,
      SaveBalances [(''alice'', \<lparr>balance = 0, total_sent = Some 2, last_updated = ''2024-05-01''\<rparr>)],
      SaveLog [\<lparr>log_date = ''2024-05-01'', log_delegator = ''alice'', log_sent = 1\<rparr>,
               \<lparr>log_date = ''2024-05-01'', log_delegator = ''alice'', log_sent = 1\<rparr>]]"
  by (simp add: payoutEffects_def crashWorld_def evalPayout)

lemma crashWorld_crashed:
  "payoutRunCrashed 2 liveEnv (\<lambda>n. True) None None ''2024-05-01'' crashWorld
     = crashWorld\<lparr>chain := [''@bayanihive:@alice'']\<rparr>"
  by (simp add: payoutRunCrashed_def crashWorld_effects) (simp add: crashWorld_def)

lemma crashWorld_restart_effects:
  "payoutEffects liveEnv (\<lambda>n. True) None None ''2024-05-02'' (crashWorld\<lparr>chain := [''@bayanihive:@alice'']\<rparr>) =
     [Broadcast ''@bayanihive:@alice'' True, SendSBI ''alice'' True,
      Broadcast ''@bayanihive:@alice'' True, SendSBI ''alice'' True,
      SaveBalances [(''alice'', \<lparr>balance = 0, total_sent = Some 2, last_updated = ''2024-05-02''\<rparr>)],
      SaveLog [\<lparr>log_date = ''2024-05-02'', log_delegator = ''alice'', log_sent = 1\<rparr>,
               \<lparr>log_date = ''2024-05-02'', log_delegator = ''alice'', log_sent = 1\<rparr>]]"
  by (simp add: payoutEffects_def crashWorld_def evalPayout)

text \<open>
  C1 as stated fails: with a balance of two chunks, the run goes from the first
  confirmed send to the next transfer with nothing saved; a process that stops
  there leaves the balance 2 and an empty log on file with one transfer on the
  chain, and the next run sends two more: three transfers where a run without a
  crash makes two.
\<close>

theorem crash_repeats_transfer:
  "payoutEffects liveEnv (\<lambda>n. True) None None ''2024-05-01'' crashWorld ! 1 = SendSBI ''alice'' True
   \<and> payoutEffects liveEnv (\<lambda>n. True) None None ''2024-05-01'' crashWorld ! 2 = Broadcast ''@bayanihive:@alice'' True
   \<and> balances_file (payoutRunCrashed 2 liveEnv (\<lambda>n. True) None None ''2024-05-01'' crashWorld)
       = Some [(''alice'', \<lparr>balance = 2, total_sent = Some 0, last_updated = ''2024-04-30''\<rparr>)]
   \<and> log_file (payoutRunCrashed 2 liveEnv (\<lambda>n. True) None None ''2024-05-01'' crashWorld) = Some []
   \<and> chain (payoutRunCrashed 2 liveEnv (\<lambda>n. True) None None ''2024-05-01'' crashWorld) = [''@bayanihive:@alice'']
   \<and> chain (payoutRun liveEnv (\<lambda>n. True) None None ''2024-05-02''
              (payoutRunCrashed 2 liveEnv (\<lambda>n. True) None None ''2024-05-01'' crashWorld))
       = [''@bayanihive:@alice'', ''@bayanihive:@alice'', ''@bayanihive:@alice'']
   \<and> chain (payoutRun liveEnv (\<lambda>n. True) None None ''2024-05-01'' crashWorld)
       = [''@bayanihive:@alice'', ''@bayanihive:@alice'']"
  by (simp add: crashWorld_crashed payoutRun_def crashWorld_restart_effects crashWorld_effects)
     (simp add: crashWorld_def)

theorem payout_saved_at_end_witness:
  "balances_file (payoutRunCrashed 2 liveEnv (\<lambda>n. True) None None ''2024-05-01'' crashWorld)
     = balances_file crashWorld
   \<and> log_file (payoutRunCrashed 2 liveEnv (\<lambda>n. True) None None ''2024-05-01'' crashWorld)
     = log_file crashWorld
   \<and> balances_file (payoutRun liveEnv (\<lambda>n. True) None None ''2024-05-01'' crashWorld)
     = Some [(''alice'', \<lparr>balance = 0, total_sent = Some 2, last_updated = ''2024-05-01''\<rparr>)]
   \<and> log_file (payoutRun liveEnv (\<lambda>n. True) None None ''2024-05-01'' crashWorld)
     = Some [\<lparr>log_date = ''2024-05-01'', log_delegator = ''alice'', log_sent = 1\<rparr>,
             \<lparr>log_date = ''2024-05-01'', log_delegator = ''alice'', log_sent = 1\<rparr>]
   \<and> chain (payoutRun liveEnv (\<lambda>n. True) None None ''2024-05-01'' crashWorld)
     = [''@bayanihive:@alice'', ''@bayanihive:@alice'']"
proof -
  let ?bs = "loadJSON (balances_file crashWorld) []"
  let ?r = "processSBIPayouts liveEnv (\<lambda>n. True) None None ''2024-05-01''
              (balances_file crashWorld) (log_file crashWorld)"
  from payout_saved_at_end [of liveEnv "\<lambda>n. True" None None "''2024-05-01''" crashWorld]
  obtain E new ks where
    e: "payoutEffects liveEnv (\<lambda>n. True) None None ''2024-05-01'' crashWorld
        = E @ [SaveBalances (fst ?r), SaveLog (loadJSON (log_file crashWorld) [] @ new)]"
    and len: "length ks = length ?bs"
    and calls: "filter snd (sendCalls E) = perSend (\<lambda>d. (d, True)) ?bs ks"
    and memos: "\<not> IS_DRY_RUN liveEnv \<longrightarrow>
        confirmedMemos E = perSend (\<lambda>d. ''@'' @ HIVE_USER liveEnv @ '':@'' @ d) ?bs ks"
    and new: "new = perSend (\<lambda>d. \<lparr>log_date = ''2024-05-01'', log_delegator = d, log_sent = SBI_CHUNK\<rparr>) ?bs ks"
    and paid: "fst ?r = paidTimes ''2024-05-01'' ?bs ks"
    and crashed: "\<forall>n \<le> length E.
          balances_file (payoutRunCrashed n liveEnv (\<lambda>n. True) None None ''2024-05-01'' crashWorld) = balances_file crashWorld
        \<and> log_file (payoutRunCrashed n liveEnv (\<lambda>n. True) None None ''2024-05-01'' crashWorld) = log_file crashWorld
        \<and> chain (payoutRunCrashed n liveEnv (\<lambda>n. True) None None ''2024-05-01'' crashWorld)
            = chain crashWorld @ confirmedMemos (take n E)"
    and saved: "balances_file (payoutRun liveEnv (\<lambda>n. True) None None ''2024-05-01'' crashWorld) = Some (fst ?r)"
    and logged: "log_file (payoutRun liveEnv (\<lambda>n. True) None None ''2024-05-01'' crashWorld)
        = Some (loadJSON (log_file crashWorld) [] @ new)"
    and chained: "chain (payoutRun liveEnv (\<lambda>n. True) None None ''2024-05-01'' crashWorld)
        = chain crashWorld @ confirmedMemos E"
    by (elim exE conjE)
  have "butlast (butlast (payoutEffects liveEnv (\<lambda>n. True) None None ''2024-05-01'' crashWorld)) = E"
    unfolding e by (simp add: butlast_append)
  then have E: "E = [Broadcast ''@bayanihive:@alice'' True, SendSBI ''alice'' True,
                     Broadcast ''@bayanihive:@alice'' True, SendSBI ''alice'' True]"
    by (simp add: crashWorld_effects)
  have bs: "?bs = [(''alice'', \<lparr>balance = 2, total_sent = Some 0, last_updated = ''2024-04-30''\<rparr>)]"
    by (simp add: crashWorld_def loadJSON_def)
  from len obtain k where ks: "ks = [k]"
    unfolding bs by (cases ks) simp_all
  have "length (filter snd (sendCalls E)) = k"
    unfolding calls bs ks by (simp add: perSend_Cons perSend_Nil)
  then have k: "k = Suc (Suc 0)" by (simp add: E)
  have c1: "balances_file (payoutRunCrashed 2 liveEnv (\<lambda>n. True) None None ''2024-05-01'' crashWorld) = balances_file crashWorld
        \<and> log_file (payoutRunCrashed 2 liveEnv (\<lambda>n. True) None None ''2024-05-01'' crashWorld) = log_file crashWorld"
    using crashed by (simp add: E)
  have c3: "balances_file (payoutRun liveEnv (\<lambda>n. True) None None ''2024-05-01'' crashWorld)
     = Some [(''alice'', \<lparr>balance = 0, total_sent = Some 2, last_updated = ''2024-05-01''\<rparr>)]"
    unfolding saved paid bs ks k
    by (simp add: paidTimes_Cons paidTimes_Nil paidEntry_def SBI_CHUNK_def formatHIVE_def toFixed_def)
  have c4: "log_file (payoutRun liveEnv (\<lambda>n. True) None None ''2024-05-01'' crashWorld)
     = Some [\<lparr>log_date = ''2024-05-01'', log_delegator = ''alice'', log_sent = 1\<rparr>,
             \<lparr>log_date = ''2024-05-01'', log_delegator = ''alice'', log_sent = 1\<rparr>]"
    unfolding logged new bs ks k
    by (simp add: perSend_Cons perSend_Nil SBI_CHUNK_def crashWorld_def loadJSON_def)
  have c5: "chain (payoutRun liveEnv (\<lambda>n. True) None None ''2024-05-01'' crashWorld)
     = [''@bayanihive:@alice'', ''@bayanihive:@alice'']"
    using memos unfolding chained bs ks k
    by (simp add: perSend_Cons perSend_Nil crashWorld_def liveEnv_def)
  from c1 c3 c4 c5 show ?thesis by (intro conjI) simp_all
qed

subsection \<open>Exit of the accumulation stage\<close>

lemma validateDelegators_failure:
  "validateDelegators ds = Some f \<Longrightarrow> f = TypeError \<or> f = ProcessExit 1"
  by (induction ds) (auto split: if_splits)

lemma validateDelegators_None:
  "validateDelegators ds = None \<longleftrightarrow>
     (\<forall>d \<in> set ds. d \<noteq> JNull \<and> truthyProperty (property d ''name'') \<and> isNumber (property d ''base_reward''))"
  by (induction ds) auto

lemma fetchRewards_failure:
  "fetchRewards file = Inl f \<Longrightarrow> f = TypeError \<or> f = ProcessExit 1"
  by (auto simp: fetchRewards_def Let_def split: if_splits option.splits json.splits
      dest: validateDelegators_failure)

lemma accumulate_exit_code:
  "accumulate env net cfg sbi today file w = Some (Exited code) \<Longrightarrow> code = 1"
  by (auto simp: accumulate_def split: sum.splits failure.splits option.splits prod.splits
      dest: fetchRewards_failure)

lemma accumulate_rejected:
  "fetchRewards summary = Inl f \<Longrightarrow> accumulate env net cfg sbi today summary w = Some (Exited 1)"
  using fetchRewards_failure [of summary f] by (auto simp: accumulate_def)

lemma fetchRewards_accepts:
  "fetchRewards (Some j) = Inr j' \<Longrightarrow>
     j' = j \<and> truthyProperty (property j ''date'') \<and> isNumber (property j ''total_delegation_hp'')
     \<and> (\<exists>ds. property j ''delegators'' = Some (JArr ds) \<and> ds \<noteq> []
           \<and> (\<forall>d \<in> set ds. truthyProperty (property d ''name'') \<and> isNumber (property d ''base_reward'')))"
  by (auto simp: fetchRewards_def Let_def loadJSON_def validateDelegators_None
      split: if_splits option.splits json.splits)


lemma fetchRewards_total: "(\<exists>f. fetchRewards summary = Inl f) \<or> (\<exists>j. fetchRewards summary = Inr j)"
  by (cases "fetchRewards summary") auto

lemma accumulate_invalid:
  assumes "\<not> truthyProperty (property j ''date'')
      \<or> \<not> isNumber (property j ''total_delegation_hp'')
      \<or> (\<forall>ds. property j ''delegators'' \<noteq> Some (JArr ds))
      \<or> property j ''delegators'' = Some (JArr [])
      \<or> (\<exists>ds d. property j ''delegators'' = Some (JArr ds) \<and> d \<in> set ds
            \<and> (\<not> truthyProperty (property d ''name'') \<or> \<not> isNumber (property d ''base_reward'')))"
  shows "accumulate env net cfg sbi today (Some j) w = Some (Exited 1)"
proof -
  have "\<not> (\<exists>j'. fetchRewards (Some j) = Inr j')"
  proof
    assume "\<exists>j'. fetchRewards (Some j) = Inr j'"
    then obtain j' where "fetchRewards (Some j) = Inr j'" by blast
    from fetchRewards_accepts [OF this] assms show False by auto
  qed
  then obtain f where "fetchRewards (Some j) = Inl f"
    using fetchRewards_total [of "Some j"] by blast
  then show ?thesis by (rule accumulate_rejected)
qed

lemma validate_delegatorJSON:
  assumes "\<forall>d \<in> set ds. fst d \<noteq> []"
  shows "validateDelegators (map delegatorJSON ds) = None"
  using assms by (induction ds) (simp_all add: delegatorJSON_def truthyProperty_def)

lemma read_delegatorJSON:
  "those (map (readDelegator \<circ> delegatorJSON) ds) = Some (map (\<lambda>d. (fst d, snd (snd d))) ds)"
  by (induction ds) (simp_all add: delegatorJSON_def readDelegator_def)

lemma fetchRewards_summaryJSON:
  assumes "day \<noteq> []" and "ds \<noteq> []" and "\<forall>d \<in> set ds. fst d \<noteq> []"
  shows "fetchRewards (Some (summaryJSON day totalHP curation distributable ds))
         = Inr (summaryJSON day totalHP curation distributable ds)"
  using assms validate_delegatorJSON [OF assms(3)]
  by (simp add: fetchRewards_def summaryJSON_def loadJSON_def truthyProperty_def Let_def)

lemma readSummary_summaryJSON:
  "readSummary (summaryJSON day totalHP curation distributable ds)
     = Some (toFixed 3 totalHP, map (\<lambda>d. (fst d, snd (snd d))) ds)"
  by (simp add: readSummary_def summaryJSON_def read_delegatorJSON)

lemma accumulate_summaryJSON:
  assumes "day \<noteq> []" and "ds \<noteq> []" and "\<forall>d \<in> set ds. fst d \<noteq> []"
  shows "accumulate env net cfg sbi today (Some (summaryJSON day totalHP curation distributable ds)) w
     = Some (Completed (payoutRun env net cfg sbi today
         (w\<lparr>balances_file :=
              Some (fold (accrue (getMultiplier (toFixed 3 totalHP)) today)
                      (map (\<lambda>d. (fst d, snd (snd d))) ds) (loadJSON (balances_file w) []))\<rparr>)))"
  by (simp add: accumulate_def fetchRewards_summaryJSON [OF assms] readSummary_summaryJSON Let_def)

lemma fetchRewards_no_delegators:
  "fetchRewards (Some (summaryJSON day totalHP curation distributable [])) = Inl (ProcessExit 1)"
  by (simp add: fetchRewards_def summaryJSON_def loadJSON_def truthyProperty_def Let_def)

text \<open>
  C8 (as amended). The accumulation stage ends with exit code 1 when
  payout_summary.json is missing or structurally invalid: without a truthy date,
  a numeric \<open>total_delegation_hp\<close>, or a non-empty array of delegators that each
  have a truthy name and a numeric \<open>base_reward\<close>. A summary that reports no
  contributor is invalid in this sense. The stage never exits with another code.
  A summary as the fetch stage writes it, with at least one contributor, is run
  to the normal end of the stage whatever its earnings: the rewards (zero
  included) are accrued and saved, and the payout pass runs on them.
\<close>

theorem accumulation_exit:
  "accumulate env net cfg sbi today None w = Some (Exited 1)
   \<and> (\<forall>j. \<not> truthyProperty (property j ''date'')
          \<or> \<not> isNumber (property j ''total_delegation_hp'')
          \<or> (\<forall>items. property j ''delegators'' \<noteq> Some (JArr items))
          \<or> property j ''delegators'' = Some (JArr [])
          \<or> (\<exists>items d. property j ''delegators'' = Some (JArr items) \<and> d \<in> set items
                \<and> (\<not> truthyProperty (property d ''name'') \<or> \<not> isNumber (property d ''base_reward'')))
        \<longrightarrow> accumulate env net cfg sbi today (Some j) w = Some (Exited 1))
   \<and> accumulate env net cfg sbi today (Some (summaryJSON day totalHP curation distributable [])) w
       = Some (Exited 1)
   \<and> (\<forall>summary code. accumulate env net cfg sbi today summary w = Some (Exited code) \<longrightarrow> code = 1)
   \<and> (day \<noteq> [] \<and> ds \<noteq> [] \<and> (\<forall>d \<in> set ds. fst d \<noteq> []) \<longrightarrow>
        accumulate env net cfg sbi today (Some (summaryJSON day totalHP curation distributable ds)) w
          = Some (Completed (payoutRun env net cfg sbi today
              (w\<lparr>balances_file :=
                   Some (fold (accrue (getMultiplier (toFixed 3 totalHP)) today)
                           (map (\<lambda>d. (fst d, snd (snd d))) ds) (loadJSON (balances_file w) []))\<rparr>))))"
proof -
  have c1: "accumulate env net cfg sbi today None w = Some (Exited 1)"
    by (simp add: accumulate_def fetchRewards_def loadJSON_def)
  have c3: "accumulate env net cfg sbi today (Some (summaryJSON day totalHP curation distributable [])) w
       = Some (Exited 1)"
    using fetchRewards_no_delegators by (rule accumulate_rejected)
  have c2: "\<forall>j. \<not> truthyProperty (property j ''date'')
          \<or> \<not> isNumber (property j ''total_delegation_hp'')
          \<or> (\<forall>items. property j ''delegators'' \<noteq> Some (JArr items))
          \<or> property j ''delegators'' = Some (JArr [])
          \<or> (\<exists>items d. property j ''delegators'' = Some (JArr items) \<and> d \<in> set items
                \<and> (\<not> truthyProperty (property d ''name'') \<or> \<not> isNumber (property d ''base_reward'')))
        \<longrightarrow> accumulate env net cfg sbi today (Some j) w = Some (Exited 1)"
    by (intro allI impI) (rule accumulate_invalid)
  have c4: "\<forall>summary code. accumulate env net cfg sbi today summary w = Some (Exited code) \<longrightarrow> code = 1"
    by (intro allI impI) (rule accumulate_exit_code)
  have c5: "day \<noteq> [] \<and> ds \<noteq> [] \<and> (\<forall>d \<in> set ds. fst d \<noteq> []) \<longrightarrow>
        accumulate env net cfg sbi today (Some (summaryJSON day totalHP curation distributable ds)) w
          = Some (Completed (payoutRun env net cfg sbi today
              (w\<lparr>balances_file :=
                   Some (fold (accrue (getMultiplier (toFixed 3 totalHP)) today)
                           (map (\<lambda>d. (fst d, snd (snd d))) ds) (loadJSON (balances_file w) []))\<rparr>)))"
  proof
    assume a: "day \<noteq> [] \<and> ds \<noteq> [] \<and> (\<forall>d \<in> set ds. fst d \<noteq> [])"
    then have "day \<noteq> []" "ds \<noteq> []" "\<forall>d \<in> set ds. fst d \<noteq> []" by simp_all
    then show "accumulate env net cfg sbi today (Some (summaryJSON day totalHP curation distributable ds)) w
          = Some (Completed (payoutRun env net cfg sbi today
              (w\<lparr>balances_file :=
                   Some (fold (accrue (getMultiplier (toFixed 3 totalHP)) today)
                           (map (\<lambda>d. (fst d, snd (snd d))) ds) (loadJSON (balances_file w) []))\<rparr>)))"
      by (rule accumulate_summaryJSON)
  qed
  from c1 c2 c3 c4 c5 show ?thesis by (intro conjI)
qed


text \<open>
  C8 as stated fails for a well-formed summary that reports zero eligible
  contributors: \<open>fetchRewards\<close> ends the process with code 1.
\<close>

theorem empty_summary_exits_with_error:
  "summaryJSON ''2024-05-01'' 0 0 0 []
     = JObj [(''date'', JStr ''2024-05-01''), (''total_delegation_hp'', JNum 0),
             (''total_curation_hive'', JNum 0), (''distributable_hive'', JNum 0),
             (''delegators'', JArr [])]
   \<and> fetchRewards (Some (summaryJSON ''2024-05-01'' 0 0 0 [])) = Inl (ProcessExit 1)
   \<and> accumulate liveEnv (\<lambda>n. True) None None ''2024-05-01''
        (Some (summaryJSON ''2024-05-01'' 0 0 0 [])) crashWorld = Some (Exited 1)
   \<and> exitCode (Exited 1) \<noteq> 0"
  by (simp add: accumulate_def fetchRewards_def summaryJSON_def loadJSON_def truthyProperty_def
      toFixed_def exitCode_def Let_def)

theorem accumulation_exit_witness:
  "accumulate liveEnv (\<lambda>n. True) None None ''2024-05-01''
     (Some (summaryJSON ''2024-05-01'' 100 0 0 [(''alice'', 100, 0)])) crashWorld
   = Some (Completed
       \<lparr>balances_file = Some [(''alice'', \<lparr>balance = 0, total_sent = Some 2, last_updated = ''2024-05-01''\<rparr>)],
        log_file = Some [\<lparr>log_date = ''2024-05-01'', log_delegator = ''alice'', log_sent = 1\<rparr>,
                         \<lparr>log_date = ''2024-05-01'', log_delegator = ''alice'', log_sent = 1\<rparr>],
        chain = [''@bayanihive:@alice'', ''@bayanihive:@alice'']\<rparr>)"
proof -
  have accrued: "fold (accrue (getMultiplier (toFixed 3 100)) ''2024-05-01'')
        (map (\<lambda>d. (fst d, snd (snd d))) [(''alice'', 100 :: real, 0 :: real)]) (loadJSON (balances_file crashWorld) [])
      = [(''alice'', \<lparr>balance = 2, total_sent = Some 0, last_updated = ''2024-05-01''\<rparr>)]"
    by (simp add: accrue_def getMultiplier_def crashWorld_def loadJSON_def formatHIVE_def toFixed_def Let_def)
  have run: "payoutRun liveEnv (\<lambda>n. True) None None ''2024-05-01''
        (crashWorld\<lparr>balances_file := Some [(''alice'', \<lparr>balance = 2, total_sent = Some 0, last_updated = ''2024-05-01''\<rparr>)]\<rparr>)
      = \<lparr>balances_file = Some [(''alice'', \<lparr>balance = 0, total_sent = Some 2, last_updated = ''2024-05-01''\<rparr>)],
        log_file = Some [\<lparr>log_date = ''2024-05-01'', log_delegator = ''alice'', log_sent = 1\<rparr>,
                         \<lparr>log_date = ''2024-05-01'', log_delegator = ''alice'', log_sent = 1\<rparr>],
        chain = [''@bayanihive:@alice'', ''@bayanihive:@alice'']\<rparr>"
    by (simp add: payoutRun_def payoutEffects_def crashWorld_def evalPayout)
  have h: "''2024-05-01'' \<noteq> [] \<and> [(''alice'', 100 :: real, 0 :: real)] \<noteq> []
      \<and> (\<forall>d \<in> set [(''alice'', 100 :: real, 0 :: real)]. fst d \<noteq> [])"
    by simp
  from accumulation_exit [of liveEnv "\<lambda>n. True" None None "''2024-05-01''" crashWorld
      "''2024-05-01''" 100 0 0 "[(''alice'', 100, 0)]"] h
  have "accumulate liveEnv (\<lambda>n. True) None None ''2024-05-01''
     (Some (summaryJSON ''2024-05-01'' 100 0 0 [(''alice'', 100, 0)])) crashWorld
     = Some (Completed (payoutRun liveEnv (\<lambda>n. True) None None ''2024-05-01''
              (crashWorld\<lparr>balances_file :=
                   Some (fold (accrue (getMultiplier (toFixed 3 100)) ''2024-05-01'')
                           (map (\<lambda>d. (fst d, snd (snd d))) [(''alice'', 100 :: real, 0 :: real)])
                           (loadJSON (balances_file crashWorld) []))\<rparr>)))"
    by blast
  then show ?thesis by (simp only: accrued run)
qed

end
